theory Spec2Isabelle
  imports Main "HOL-Library.Code_Target_Nat"
begin

section \<open>JavaScript strings\<close>

text \<open>
  A JavaScript string is a sequence of UTF-16 code units. The documents this program reads
  carry Chinese column labels, so the 8-bit \<open>char\<close> of HOL is too small: a code unit is a
  natural number (below 65536 in every string the runtime can build), and a string is a
  list of them. \<open>ascii\<close> embeds a Basic Latin literal.
\<close>

type_synonym jschar = nat
type_synonym jsstring = "jschar list"

definition ascii :: "string \<Rightarrow> jsstring" where
  "ascii s = map of_char s"

text \<open>
  \<open>isWhiteSpace\<close> is the set that \<open>String.prototype.trim\<close> removes and that the regular
  expression class \<open>\s\<close> matches: ECMAScript's WhiteSpace and LineTerminator code points.
  \<open>isLineTerminator\<close> is what the regular expression \<open>.\<close> refuses.
\<close>

definition isWhiteSpace :: "jschar \<Rightarrow> bool" where
  "isWhiteSpace c \<longleftrightarrow>
     c = 9 \<or> c = 10 \<or> c = 11 \<or> c = 12 \<or> c = 13 \<or> c = 32 \<or> c = 160 \<or> c = 5760 \<or>
     (8192 \<le> c \<and> c \<le> 8202) \<or> c = 8232 \<or> c = 8233 \<or> c = 8239 \<or> c = 8287 \<or>
     c = 12288 \<or> c = 65279"

definition isLineTerminator :: "jschar \<Rightarrow> bool" where
  "isLineTerminator c \<longleftrightarrow> c = 10 \<or> c = 13 \<or> c = 8232 \<or> c = 8233"

definition trimStart :: "jsstring \<Rightarrow> jsstring" where
  "trimStart s = dropWhile isWhiteSpace s"

definition trimEnd :: "jsstring \<Rightarrow> jsstring" where
  "trimEnd s = rev (dropWhile isWhiteSpace (rev s))"

definition trim :: "jsstring \<Rightarrow> jsstring" where
  "trim s = trimEnd (trimStart s)"

text \<open>
  Case mapping. \<open>String.prototype.toLowerCase\<close> and \<open>toUpperCase\<close> follow the Unicode
  tables of the engine, which are not part of this repository: they are parameters of every
  function that calls them, together with the message of the engine's \<open>TypeError\<close>. What
  is thrown is an \<open>Error\<close> object with its message.
\<close>

datatype exn = Error jsstring

record Runtime =
  toLowerCase :: "jsstring \<Rightarrow> jsstring"
  toUpperCase :: "jsstring \<Rightarrow> jsstring"
  typeErrorMessage :: jsstring

text \<open>
  The mapping of the Basic Latin letters. A regular expression with the flag \<open>i\<close> and
  without the flag \<open>u\<close> compares code units after \<open>Canonicalize\<close>, which sends no code
  unit outside Basic Latin to a Basic Latin letter: against a pattern of Basic Latin
  letters a code unit matches exactly when \<open>lowerChar\<close> makes the two equal, which is
  \<open>regexFold\<close>. \<open>basicLatin\<close> is a runtime whose case mappings are these on every
  string; the engine agrees with it on strings of Basic Latin and caseless code units.
\<close>

definition lowerChar :: "jschar \<Rightarrow> jschar" where
  "lowerChar c = (if 65 \<le> c \<and> c \<le> 90 then c + 32 else c)"

definition upperChar :: "jschar \<Rightarrow> jschar" where
  "upperChar c = (if 97 \<le> c \<and> c \<le> 122 then c - 32 else c)"

definition regexFold :: "jsstring \<Rightarrow> jsstring" where
  "regexFold s = map lowerChar s"

definition basicLatin :: Runtime where
  "basicLatin =
     \<lparr>toLowerCase = map lowerChar, toUpperCase = map upperChar,
      typeErrorMessage = ascii ''Cannot read properties''\<rparr>"

definition startsWith :: "jsstring \<Rightarrow> jsstring \<Rightarrow> bool" where
  "startsWith s p \<longleftrightarrow> take (length p) s = p"

fun includesStr :: "jsstring \<Rightarrow> jsstring \<Rightarrow> bool" where
  "includesStr [] p \<longleftrightarrow> p = []"
| "includesStr (c # cs) p \<longleftrightarrow> startsWith (c # cs) p \<or> includesStr cs p"

text \<open>\<open>s.split(sep)\<close> for a separator of one code unit: never the empty list.\<close>

fun split :: "jschar \<Rightarrow> jsstring \<Rightarrow> jsstring list" where
  "split sep [] = [[]]"
| "split sep (c # cs) =
     (if c = sep then [] # split sep cs
      else (case split sep cs of p # ps \<Rightarrow> (c # p) # ps | [] \<Rightarrow> [[c]]))"

text \<open>
  \<open>s.replace(/pat/g, rep)\<close> for a literal, non-empty pattern: the leftmost occurrence is
  replaced and the scan goes on after it.
\<close>

fun replaceAll :: "jsstring \<Rightarrow> jsstring \<Rightarrow> jsstring \<Rightarrow> jsstring" where
  "replaceAll pat rep [] = []"
| "replaceAll pat rep (c # cs) =
     (if pat \<noteq> [] \<and> startsWith (c # cs) pat
      then rep @ replaceAll pat rep (drop (length pat) (c # cs))
      else c # replaceAll pat rep cs)"

section \<open>Row tokenizer\<close>

definition PLACEHOLDER :: jsstring where
  "PLACEHOLDER = ascii ''__ESCAPED_PIPE__''"

definition pipe :: jschar where
  "pipe = 124"

definition backslash :: jschar where
  "backslash = 92"

text \<open>\<open>row.replace(/\\\|/g, PLACEHOLDER)\<close>\<close>

definition escapePipes :: "jsstring \<Rightarrow> jsstring" where
  "escapePipes row = replaceAll [backslash, pipe] PLACEHOLDER row"

text \<open>\<open>.replace(/^\|/, "")\<close> and \<open>.replace(/\|$/, "")\<close>\<close>

definition stripLeadingPipe :: "jsstring \<Rightarrow> jsstring" where
  "stripLeadingPipe s = (case s of c # cs \<Rightarrow> if c = pipe then cs else s | [] \<Rightarrow> [])"

definition stripTrailingPipe :: "jsstring \<Rightarrow> jsstring" where
  "stripTrailingPipe s = (if s \<noteq> [] \<and> last s = pipe then butlast s else s)"

definition restorePipes :: "jsstring \<Rightarrow> jsstring" where
  "restorePipes p = replaceAll PLACEHOLDER [pipe] (trim p)"

definition splitRowPreservingEscapedPipes :: "jsstring \<Rightarrow> jsstring list" where
  "splitRowPreservingEscapedPipes row =
     (let replaced = escapePipes row;
          parts = map restorePipes (split pipe (stripTrailingPipe (stripLeadingPipe replaced)))
      in parts)"

text \<open>\<open>md.split(/\r?\n/)\<close>\<close>

fun splitLines :: "jsstring \<Rightarrow> jsstring list" where
  "splitLines [] = [[]]"
| "splitLines (c # cs) =
     (if c = 10 then [] # splitLines cs
      else (case cs of
              d # ds \<Rightarrow>
                if c = 13 \<and> d = 10 then [] # splitLines ds
                else (case splitLines cs of p # ps \<Rightarrow> (c # p) # ps | [] \<Rightarrow> [[c]])
            | [] \<Rightarrow> [[c]]))"

section \<open>Section extractor\<close>

definition normalizeLine :: "jsstring \<Rightarrow> jsstring" where
  "normalizeLine line = trimEnd line"

text \<open>\<open>Array.prototype.findIndex\<close>, with \<open>None\<close> for \<open>-1\<close>.\<close>

fun findIndex :: "('a \<Rightarrow> bool) \<Rightarrow> 'a list \<Rightarrow> nat option" where
  "findIndex P [] = None"
| "findIndex P (x # xs) = (if P x then Some 0 else map_option Suc (findIndex P xs))"

definition H3 :: jsstring where
  "H3 = ascii ''### ''"

definition isSectionStart :: "Runtime \<Rightarrow> jsstring \<Rightarrow> jsstring \<Rightarrow> bool" where
  "isSectionStart rt heading l \<longleftrightarrow>
     startsWith (toLowerCase rt (trim l)) (H3 @ toLowerCase rt heading)"

text \<open>The \<open>for\<close> loop of \<open>extractSection\<close>, over the lines after the heading.\<close>

fun sectionBody :: "jsstring list \<Rightarrow> jsstring list" where
  "sectionBody [] = []"
| "sectionBody (line # rest) = (if startsWith (trim line) H3 then [] else line # sectionBody rest)"

definition extractSection :: "Runtime \<Rightarrow> jsstring list \<Rightarrow> jsstring \<Rightarrow> jsstring list" where
  "extractSection rt lines heading =
     (case findIndex (isSectionStart rt heading) lines of
        None \<Rightarrow> []
      | Some startIdx \<Rightarrow> sectionBody (drop (startIdx + 1) lines))"

section \<open>Table locator\<close>

text \<open>\<open>/\|\s*-{2,}/.test(s)\<close>: somewhere a pipe, then white space, then two dashes.\<close>

fun separatorTest :: "jsstring \<Rightarrow> bool" where
  "separatorTest [] \<longleftrightarrow> False"
| "separatorTest (c # cs) \<longleftrightarrow>
     (c = pipe \<and> startsWith (dropWhile isWhiteSpace cs) [45, 45]) \<or> separatorTest cs"

definition isCandidateHeader :: "jsstring \<Rightarrow> bool" where
  "isCandidateHeader t \<longleftrightarrow>
     startsWith t [pipe] \<or> (includesStr t [pipe] \<and> \<not> startsWith t (ascii ''###''))"

text \<open>The first loop of \<open>extractFirstTable\<close>: the index \<open>i\<close> and the lines from \<open>i\<close> on.\<close>

fun findTableStart :: "nat \<Rightarrow> jsstring list \<Rightarrow> nat option" where
  "findTableStart i [] = None"
| "findTableStart i (l # rest) =
     (if isCandidateHeader (trim l) \<and> (case rest of n # _ \<Rightarrow> separatorTest n | [] \<Rightarrow> False)
      then Some i else findTableStart (i + 1) rest)"

text \<open>The second loop, over the lines from \<open>start\<close> on.\<close>

fun collectTable :: "jsstring list \<Rightarrow> jsstring list" where
  "collectTable [] = []"
| "collectTable (t # rest) =
     (if \<not> includesStr t [pipe] then []
      else if trim t = [] then []
      else t # (if (case rest of n # _ \<Rightarrow> trim n = [] | [] \<Rightarrow> False) then []
                else collectTable rest))"

definition extractFirstTable :: "jsstring list \<Rightarrow> jsstring list" where
  "extractFirstTable sectionLines =
     (let lines = map normalizeLine sectionLines
      in case findTableStart 0 lines of
           None \<Rightarrow> []
         | Some start \<Rightarrow> collectTable (drop start lines))"

section \<open>Header-mapped interpreters\<close>

record ParsedTable =
  headers :: "jsstring list"
  rows :: "jsstring list list"

definition parseMarkdownTable :: "Runtime \<Rightarrow> jsstring list \<Rightarrow> ParsedTable" where
  "parseMarkdownTable rt tableLines =
     (if length tableLines < 2 then \<lparr>headers = [], rows = []\<rparr>
      else
        let headerLine = hd tableLines;
            hs = map (toLowerCase rt) (splitRowPreservingEscapedPipes headerLine);
            dataRows = filter (\<lambda>l. length (trim l) > 0 \<and> includesStr l [pipe]) (drop 2 tableLines)
        in \<lparr>headers = hs, rows = map splitRowPreservingEscapedPipes dataRows\<rparr>)"

text \<open>\<open>Array.prototype.indexOf\<close>, \<open>-1\<close> when absent; \<open>cols[i] || ""\<close>.\<close>

fun indexOf :: "'a list \<Rightarrow> 'a \<Rightarrow> int" where
  "indexOf [] x = -1"
| "indexOf (y # ys) x = (if y = x then 0 else (let r = indexOf ys x in if r < 0 then -1 else r + 1))"

definition cellOrEmpty :: "jsstring list \<Rightarrow> int \<Rightarrow> jsstring" where
  "cellOrEmpty cols i = (if 0 \<le> i \<and> i < int (length cols) then cols ! nat i else [])"

text \<open>The column labels: name, type, default value, description (props), required,
  parameters, description (events and methods), return value.\<close>

definition L_name :: jsstring where "L_name = [0x540D, 0x79F0]"
definition L_type :: jsstring where "L_type = [0x7C7B, 0x578B]"
definition L_default :: jsstring where "L_default = [0x9ED8, 0x8BA4, 0x503C]"
definition L_desc :: jsstring where "L_desc = [0x8BF4, 0x660E]"
definition L_required :: jsstring where "L_required = [0x5FC5, 0x4F20]"
definition L_params :: jsstring where "L_params = [0x53C2, 0x6570]"
definition L_description :: jsstring where "L_description = [0x63CF, 0x8FF0]"
definition L_return :: jsstring where "L_return = [0x8FD4, 0x56DE, 0x503C]"

record ParsedPropRow =
  prop_name :: jsstring
  prop_type :: jsstring
  prop_defaultValue :: "jsstring option"
  prop_description :: jsstring
  prop_required :: bool

record ParsedEventRow =
  event_name :: jsstring
  event_params :: jsstring
  event_description :: jsstring

record ParsedMethodRow =
  method_name :: jsstring
  method_params :: jsstring
  method_returnType :: jsstring
  method_description :: jsstring

record ComponentDocJson =
  doc_component :: jsstring
  doc_props :: "ParsedPropRow list"
  doc_events :: "ParsedEventRow list"
  doc_methods :: "ParsedMethodRow list option"

text \<open>The body of the \<open>forEach\<close> of \<open>parsePropsTable\<close>.\<close>

definition propRow :: "Runtime \<Rightarrow> jsstring list \<Rightarrow> jsstring list \<Rightarrow> ParsedPropRow" where
  "propRow rt hs cols =
     (let nameIdx = indexOf hs L_name;
          typeIdx = indexOf hs L_type;
          defaultIdx = indexOf hs L_default;
          descIdx = indexOf hs L_desc;
          requiredIdx = indexOf hs L_required;
          defaultValueRaw = trim (cellOrEmpty cols defaultIdx);
          requiredRaw = toUpperCase rt (trim (cellOrEmpty cols requiredIdx))
      in \<lparr>prop_name = trim (cellOrEmpty cols nameIdx),
          prop_type = trim (cellOrEmpty cols typeIdx),
          prop_defaultValue =
            (if defaultValueRaw = [45] \<or> defaultValueRaw = [] then None else Some defaultValueRaw),
          prop_description = trim (cellOrEmpty cols descIdx),
          prop_required = (requiredRaw = ascii ''Y'' \<or> requiredRaw = ascii ''YES'')\<rparr>)"

definition parsePropsTable :: "Runtime \<Rightarrow> jsstring list \<Rightarrow> ParsedPropRow list" where
  "parsePropsTable rt tableLines =
     (let t = parseMarkdownTable rt tableLines
      in if length (headers t) = 0 then [] else map (propRow rt (headers t)) (rows t))"

definition eventRow :: "jsstring list \<Rightarrow> jsstring list \<Rightarrow> ParsedEventRow" where
  "eventRow hs cols =
     \<lparr>event_name = trim (cellOrEmpty cols (indexOf hs L_name)),
      event_params = trim (cellOrEmpty cols (indexOf hs L_params)),
      event_description = trim (cellOrEmpty cols (indexOf hs L_description))\<rparr>"

definition parseEventsTable :: "Runtime \<Rightarrow> jsstring list \<Rightarrow> ParsedEventRow list" where
  "parseEventsTable rt tableLines =
     (let t = parseMarkdownTable rt tableLines
      in if length (headers t) = 0 then [] else map (eventRow (headers t)) (rows t))"

definition methodRow :: "jsstring list \<Rightarrow> jsstring list \<Rightarrow> ParsedMethodRow" where
  "methodRow hs cols =
     \<lparr>method_name = trim (cellOrEmpty cols (indexOf hs L_name)),
      method_params = trim (cellOrEmpty cols (indexOf hs L_params)),
      method_returnType = trim (cellOrEmpty cols (indexOf hs L_return)),
      method_description = trim (cellOrEmpty cols (indexOf hs L_description))\<rparr>"

definition parseMethodsTable :: "Runtime \<Rightarrow> jsstring list \<Rightarrow> ParsedMethodRow list" where
  "parseMethodsTable rt tableLines =
     (let t = parseMarkdownTable rt tableLines
      in if length (headers t) = 0 then [] else map (methodRow (headers t)) (rows t))"

section \<open>Document dispatcher\<close>

text \<open>
  \<open>line.replace(/^\s*###\s*/i, "")\<close>: white space, three hashes and white space at the
  start of the line are removed; a line that does not start so is left as it is.
\<close>

definition stripHeadingMarker :: "jsstring \<Rightarrow> jsstring" where
  "stripHeadingMarker l =
     (let r = dropWhile isWhiteSpace l
      in if startsWith r (ascii ''###'') then dropWhile isWhiteSpace (drop 3 r) else l)"

text \<open>
  \<open>s.replace(/\s+Props.*/i, "")\<close>: the leftmost run of white space followed by the word,
  in either case, is removed with everything after it up to a line terminator.
  \<open>propsMatchAt\<close> says that the expression matches at the start of a string;
  \<open>afterProps\<close> is what is left of the string after the match.
\<close>

definition propsMatchAt :: "jsstring \<Rightarrow> bool" where
  "propsMatchAt s \<longleftrightarrow>
     (case s of
        c # cs \<Rightarrow> isWhiteSpace c \<and> startsWith (regexFold (dropWhile isWhiteSpace cs)) (ascii ''props'')
      | [] \<Rightarrow> False)"

definition afterProps :: "jsstring \<Rightarrow> jsstring" where
  "afterProps s = dropWhile (\<lambda>d. \<not> isLineTerminator d) (drop 5 (dropWhile isWhiteSpace (tl s)))"

fun stripPropsSuffix :: "jsstring \<Rightarrow> jsstring" where
  "stripPropsSuffix [] = []"
| "stripPropsSuffix (c # cs) =
     (if propsMatchAt (c # cs) then afterProps (c # cs) else c # stripPropsSuffix cs)"

definition componentNameOf :: "jsstring \<Rightarrow> jsstring" where
  "componentNameOf line = trim (stripPropsSuffix (stripHeadingMarker line))"

definition methodsMarker :: jsstring where
  "methodsMarker = ascii ''InstanceFunctions '' @ [0x7EC4, 0x4EF6, 0x5B9E, 0x4F8B, 0x65B9, 0x6CD5]"

text \<open>
  The three sections of one component and its record; the source has this text twice, in
  \<open>parseMultiComponentDoc\<close> and in the single-component branch of
  \<open>processMarkdownFile\<close>.
\<close>

definition componentDoc :: "Runtime \<Rightarrow> jsstring list \<Rightarrow> jsstring \<Rightarrow> ComponentDocJson" where
  "componentDoc rt lines component =
     (let propsSection = extractSection rt lines (component @ ascii '' Props'');
          eventsSection = extractSection rt lines (component @ ascii '' Events'');
          methodsSection = extractSection rt lines (component @ methodsMarker);
          propsTable = extractFirstTable propsSection;
          eventsTable = extractFirstTable eventsSection;
          methodsTable = extractFirstTable methodsSection
      in \<lparr>doc_component = component,
          doc_props = parsePropsTable rt propsTable,
          doc_events = parseEventsTable rt eventsTable,
          doc_methods = (if length methodsTable > 0 then Some (parseMethodsTable rt methodsTable)
                         else None)\<rparr>)"

definition isPropsHeading :: "Runtime \<Rightarrow> jsstring \<Rightarrow> bool" where
  "isPropsHeading rt line \<longleftrightarrow>
     startsWith (toLowerCase rt line) H3 \<and> includesStr (toLowerCase rt line) (ascii ''props'')"

definition parseMultiComponentDoc :: "Runtime \<Rightarrow> jsstring list \<Rightarrow> ComponentDocJson list" where
  "parseMultiComponentDoc rt lines =
     (let componentHeadings = filter (isPropsHeading rt) (map trim lines)
      in map (\<lambda>line. componentDoc rt lines (componentNameOf line)) componentHeadings)"

section \<open>Persistence\<close>

text \<open>
  The files \<open>processComponent\<close> touches, by their path relative to the project root:
  the component files under \<open>src/data/components\<close> and \<open>index.json\<close> in the same
  directory; a component whose safe name is \<open>index\<close> has the index file as its own
  file. A file holds what was written for a component (the text of an object with no
  \<open>components\<close> property), or an index (an object with a \<open>components\<close> array), or text
  that is not JSON, or JSON of another shape.

  The callback of \<open>some\<close> reads \<open>e.name\<close>: that throws on an entry that is \<open>null\<close>;
  a name that is absent or falsy counts as the empty string; a name that is truthy and not
  a string has no \<open>toLowerCase\<close>, which throws too. Failures of the file system itself
  are outside the model.
\<close>

datatype EntryName = NameAbsent | NameString jsstring | NameOther

datatype IndexEntry = NullEntry | Entry EntryName "jsstring option"

datatype FileContent =
  DocFile ComponentDocJson | IndexEntries "IndexEntry list" | InvalidJson | NoComponentsArray

type_synonym Store = "jsstring \<rightharpoonup> FileContent"

text \<open>\<open>.replace(/\s+/g, "-")\<close>, \<open>.replace(/[^a-zA-Z0-9\-_.]/g, "-")\<close>,
  \<open>.replace(/-+/g, "-")\<close> and \<open>.replace(/^-|-$/g, "")\<close>.\<close>

definition dash :: jschar where
  "dash = 45"

function collapseWhiteSpace :: "jsstring \<Rightarrow> jsstring" where
  "collapseWhiteSpace [] = []"
| "collapseWhiteSpace (c # cs) =
     (if isWhiteSpace c then dash # collapseWhiteSpace (dropWhile isWhiteSpace cs)
      else c # collapseWhiteSpace cs)"
  by pat_completeness auto
termination
  by (relation "measure length") (auto simp: less_Suc_eq_le length_dropWhile_le)

definition isSafeChar :: "jschar \<Rightarrow> bool" where
  "isSafeChar c \<longleftrightarrow>
     (97 \<le> c \<and> c \<le> 122) \<or> (65 \<le> c \<and> c \<le> 90) \<or> (48 \<le> c \<and> c \<le> 57) \<or>
     c = 45 \<or> c = 95 \<or> c = 46"

function collapseDashes :: "jsstring \<Rightarrow> jsstring" where
  "collapseDashes [] = []"
| "collapseDashes (c # cs) =
     (if c = dash then dash # collapseDashes (dropWhile (\<lambda>d. d = dash) cs)
      else c # collapseDashes cs)"
  by pat_completeness auto
termination
  by (relation "measure length") (auto simp: less_Suc_eq_le length_dropWhile_le)

definition stripEdgeDashes :: "jsstring \<Rightarrow> jsstring" where
  "stripEdgeDashes s =
     (let s1 = (case s of c # cs \<Rightarrow> if c = dash then cs else s | [] \<Rightarrow> [])
      in if s1 \<noteq> [] \<and> last s1 = dash then butlast s1 else s1)"

definition safeName :: "jsstring \<Rightarrow> jsstring" where
  "safeName component =
     (let s = stripEdgeDashes (collapseDashes
                (map (\<lambda>c. if isSafeChar c then c else dash) (collapseWhiteSpace (trim component))))
      in if s = [] then ascii ''unknown'' else s)"

definition componentFileRel :: "jsstring \<Rightarrow> jsstring" where
  "componentFileRel component = ascii ''src/data/components/'' @ safeName component @ ascii ''.json''"

definition indexFileRel :: jsstring where
  "indexFileRel = ascii ''src/data/components/index.json''"

text \<open>
  The index as \<open>processComponent\<close> reads it: the \<open>components\<close> array of the file, and
  no entries when the file is missing, is not JSON or has no such array.
\<close>

definition indexComponents :: "Store \<Rightarrow> IndexEntry list" where
  "indexComponents st = (case st indexFileRel of Some (IndexEntries es) \<Rightarrow> es | _ \<Rightarrow> [])"

text \<open>\<open>indexData.components.some(e => (e.name || "").toLowerCase() ===
  json.component.toLowerCase())\<close>: in order, up to the first match or the first throw.\<close>

fun someMatches :: "Runtime \<Rightarrow> jsstring \<Rightarrow> IndexEntry list \<Rightarrow> exn + bool" where
  "someMatches rt component [] = Inr False"
| "someMatches rt component (NullEntry # es) = Inl (Error (typeErrorMessage rt))"
| "someMatches rt component (Entry NameOther f # es) = Inl (Error (typeErrorMessage rt))"
| "someMatches rt component (Entry NameAbsent f # es) =
     (if toLowerCase rt [] = toLowerCase rt component then Inr True
      else someMatches rt component es)"
| "someMatches rt component (Entry (NameString n) f # es) =
     (if toLowerCase rt n = toLowerCase rt component then Inr True
      else someMatches rt component es)"

text \<open>
  \<open>processComponent\<close>: the store it leaves and what it throws, if it throws. The component
  file is written first; the index is read after that, from the store as it then is.
\<close>

definition processComponent :: "Runtime \<Rightarrow> ComponentDocJson \<Rightarrow> Store \<Rightarrow> exn option \<times> Store" where
  "processComponent rt json st =
     (let rel = componentFileRel (doc_component json);
          st1 = st(rel \<mapsto> DocFile json);
          components = indexComponents st1
      in case someMatches rt (doc_component json) components of
           Inl e \<Rightarrow> (Some e, st1)
         | Inr exists \<Rightarrow>
             if \<not> exists
             then (None, st1(indexFileRel \<mapsto>
                     IndexEntries (components @ [Entry (NameString (doc_component json)) (Some rel)])))
             else (None, st1))"

section \<open>The pipeline\<close>

text \<open>
  \<open>processMarkdownFile\<close> on the text of the file: the records it returns, or what it
  throws, and the store it leaves. \<open>processLines\<close> is its body from the lines on, without
  the calls of \<open>processComponent\<close>, which \<open>main\<close> has a second time for standard input;
  \<open>singleComponentName\<close> is the name that the single-component branch derives;
  \<open>persistAll\<close> is the loop that persists the records in order and stops at the first
  throw.
\<close>

definition UNKNOWN :: jsstring where
  "UNKNOWN = ascii ''Unknown''"

definition singleComponentName :: "Runtime \<Rightarrow> jsstring list \<Rightarrow> jsstring" where
  "singleComponentName rt lines =
     (let propsHeadingLine =
            find (\<lambda>l. startsWith (toLowerCase rt (trim l)) H3 \<and>
                       includesStr (toLowerCase rt l) (ascii ''props'')) lines
      in case propsHeadingLine of
           Some l \<Rightarrow> if l \<noteq> [] then componentNameOf l else UNKNOWN
         | None \<Rightarrow> UNKNOWN)"

definition processLines :: "Runtime \<Rightarrow> jsstring list \<Rightarrow> ComponentDocJson list" where
  "processLines rt lines =
     (let componentHeadings = filter (\<lambda>l. isPropsHeading rt (trim l)) lines
      in if length componentHeadings > 1 then parseMultiComponentDoc rt lines
         else [componentDoc rt lines (singleComponentName rt lines)])"

fun persistAll :: "Runtime \<Rightarrow> ComponentDocJson list \<Rightarrow> Store \<Rightarrow> exn option \<times> Store" where
  "persistAll rt [] st = (None, st)"
| "persistAll rt (json # rest) st =
     (case processComponent rt json st of
        (Some e, st') \<Rightarrow> (Some e, st')
      | (None, st') \<Rightarrow> persistAll rt rest st')"

definition processMarkdownFile ::
  "Runtime \<Rightarrow> jsstring \<Rightarrow> Store \<Rightarrow> (exn + ComponentDocJson list) \<times> Store" where
  "processMarkdownFile rt md st =
     (let components = processLines rt (splitLines md)
      in case persistAll rt components st of
           (Some e, st') \<Rightarrow> (Inl e, st')
         | (None, st') \<Rightarrow> (Inr components, st'))"

section \<open>Query tools\<close>

text \<open>
  The three tools read the index and the component files back. What \<open>JSON.parse\<close>
  returns is a JSON value; what is thrown is a \<open>TypeError\<close> of the engine, a
  \<open>SyntaxError\<close> of the parser, an error of the file system or one the code throws itself.
\<close>

datatype json =
  JNull | JBool bool | JNum int | JStr jsstring | JArr "json list" | JObj "(jsstring \<times> json) list"

text \<open>
  The runtime and the file system, as the handlers call them: \<open>getProjectRoot()\<close>,
  \<open>path.resolve\<close> on its argument list, \<open>fs.existsSync\<close>, \<open>fs.readFileSync\<close>,
  \<open>JSON.parse\<close>, the conversion of a value that is not a string inside a template
  literal, and the case mappings and the \<open>TypeError\<close> message of the engine.
\<close>

record Env =
  projectRoot :: jsstring
  path_resolve :: "jsstring list \<Rightarrow> jsstring"
  existsSync :: "jsstring \<Rightarrow> bool"
  readFileSync :: "jsstring \<Rightarrow> exn + jsstring"
  JSON_parse :: "jsstring \<Rightarrow> exn + json"
  String_of :: "json \<Rightarrow> jsstring"
  runtime :: Runtime

definition bindE :: "exn + 'a \<Rightarrow> ('a \<Rightarrow> exn + 'b) \<Rightarrow> exn + 'b" where
  "bindE m f = (case m of Inl e \<Rightarrow> Inl e | Inr x \<Rightarrow> f x)"

definition typeError :: "Env \<Rightarrow> exn + 'a" where
  "typeError env = Inl (Error (typeErrorMessage (runtime env)))"

text \<open>
  \<open>v.k\<close> on a parsed value, for the property names the handlers read (\<open>components\<close>,
  \<open>name\<close>, \<open>file\<close>, \<open>component\<close>, \<open>props\<close>, \<open>events\<close>): \<open>None\<close> is
  \<open>undefined\<close>, and reading a property of \<open>null\<close> throws.
\<close>

fun getField :: "Env \<Rightarrow> json \<Rightarrow> jsstring \<Rightarrow> exn + json option" where
  "getField env JNull k = typeError env"
| "getField env (JObj kvs) k = Inr (map_of kvs k)"
| "getField env v k = Inr None"

text \<open>Truthiness, \<open>x || y\<close> and \<open>x?.length\<close>.\<close>

fun truthy :: "json option \<Rightarrow> bool" where
  "truthy None \<longleftrightarrow> False"
| "truthy (Some JNull) \<longleftrightarrow> False"
| "truthy (Some (JBool b)) \<longleftrightarrow> b"
| "truthy (Some (JNum n)) \<longleftrightarrow> n \<noteq> 0"
| "truthy (Some (JStr s)) \<longleftrightarrow> s \<noteq> []"
| "truthy (Some v) \<longleftrightarrow> True"

definition orElse :: "json option \<Rightarrow> json \<Rightarrow> json" where
  "orElse x y = (if truthy x then the x else y)"

fun optLength :: "json option \<Rightarrow> json option" where
  "optLength None = None"
| "optLength (Some JNull) = None"
| "optLength (Some (JArr xs)) = Some (JNum (int (length xs)))"
| "optLength (Some (JStr s)) = Some (JNum (int (length s)))"
| "optLength (Some (JObj kvs)) = map_of kvs (ascii ''length'')"
| "optLength (Some v) = None"

text \<open>An object literal as \<open>JSON.stringify\<close> prints it: a property that is
  \<open>undefined\<close> is left out.\<close>

definition object :: "(jsstring \<times> json option) list \<Rightarrow> json" where
  "object kvs = JObj (concat (map (\<lambda>(k, v). case v of Some x \<Rightarrow> [(k, x)] | None \<Rightarrow> []) kvs))"

text \<open>\<open>xs.join(', ')\<close>\<close>

fun joinComma :: "jsstring list \<Rightarrow> jsstring" where
  "joinComma [] = []"
| "joinComma [x] = x"
| "joinComma (x # y # ys) = x @ ascii '', '' @ joinComma (y # ys)"

text \<open>
  A tool result \<open>{content: [{type: 'text', text: JSON.stringify(payload, null, 2)}]}\<close>,
  by the value that is printed.
\<close>

record ToolResult =
  content_type :: jsstring
  payload :: json

definition textResult :: "json \<Rightarrow> ToolResult" where
  "textResult v = \<lparr>content_type = ascii ''text'', payload = v\<rparr>"

definition hasError :: "ToolResult \<Rightarrow> bool" where
  "hasError r \<longleftrightarrow>
     content_type r = ascii ''text'' \<and>
     (case payload r of
        JObj kvs \<Rightarrow> (case map_of kvs (ascii ''error'') of Some (JStr m) \<Rightarrow> True | _ \<Rightarrow> False)
      | _ \<Rightarrow> False)"

definition message :: "exn \<Rightarrow> jsstring" where
  "message e = (case e of Error m \<Rightarrow> m)"

definition indexCandidates :: "Env \<Rightarrow> jsstring list" where
  "indexCandidates env =
     [path_resolve env [projectRoot env, ascii ''build'', ascii ''data'', ascii ''components'', ascii ''index.json''],
      path_resolve env [projectRoot env, ascii ''src'', ascii ''data'', ascii ''components'', ascii ''index.json'']]"

text \<open>\<open>candidates.find(p => fs.existsSync(p))\<close>, followed by the test \<open>!found\<close>: an
  empty path counts as none.\<close>

definition findExisting :: "Env \<Rightarrow> jsstring list \<Rightarrow> jsstring option" where
  "findExisting env candidates =
     (case find (existsSync env) candidates of Some p \<Rightarrow> if p = [] then None else Some p | None \<Rightarrow> None)"

definition readJson :: "Env \<Rightarrow> jsstring \<Rightarrow> exn + json" where
  "readJson env p = bindE (readFileSync env p) (JSON_parse env)"

text \<open>\<open>indexJson.components\<close> used as an array: anything else throws.\<close>

definition componentsOf :: "Env \<Rightarrow> json \<Rightarrow> exn + json list" where
  "componentsOf env indexJson =
     bindE (getField env indexJson (ascii ''components''))
       (\<lambda>c. case c of Some (JArr es) \<Rightarrow> Inr es | _ \<Rightarrow> typeError env)"

text \<open>The try block of \<open>getComponentList\<close>.\<close>

fun listEntries :: "Env \<Rightarrow> json list \<Rightarrow> exn + json list" where
  "listEntries env [] = Inr []"
| "listEntries env (entry # es) =
     bindE (getField env entry (ascii ''name'')) (\<lambda>n.
     bindE (getField env entry (ascii ''file'')) (\<lambda>f.
     bindE (listEntries env es) (\<lambda>rest.
       Inr (object [(ascii ''name'', n), (ascii ''file'', f)] # rest))))"

definition indexNotFoundText :: "Env \<Rightarrow> jsstring" where
  "indexNotFoundText env = ascii ''Index file not found. Candidates: '' @ joinComma (indexCandidates env)"

definition getComponentList_try :: "Env \<Rightarrow> exn + ToolResult" where
  "getComponentList_try env =
     (case findExisting env (indexCandidates env) of
        None \<Rightarrow>
          Inr (textResult (object [(ascii ''components'', Some (JArr [])),
                                   (ascii ''error'', Some (JStr (indexNotFoundText env)))]))
      | Some indexFile \<Rightarrow>
          bindE (readJson env indexFile) (\<lambda>indexJson.
          bindE (componentsOf env indexJson) (\<lambda>es.
          bindE (listEntries env es) (\<lambda>components.
            Inr (textResult (object [(ascii ''components'', Some (JArr components)),
                                     (ascii ''total'', Some (JNum (int (length components))))]))))))"

definition getComponentList :: "Env \<Rightarrow> exn + ToolResult" where
  "getComponentList env =
     (case getComponentList_try env of
        Inr r \<Rightarrow> Inr r
      | Inl e \<Rightarrow>
          Inr (textResult (object [(ascii ''components'', Some (JArr [])),
                 (ascii ''error'', Some (JStr (ascii ''Failed to get component list: '' @ message e)))])))"

text \<open>\<open>loadComponentData\<close>. The callback of \<open>find\<close> lower-cases the name of the
  entry and then the name that was asked for; either throws when it is not a string.\<close>

fun findEntry :: "Env \<Rightarrow> json \<Rightarrow> json list \<Rightarrow> exn + json option" where
  "findEntry env componentName [] = Inr None"
| "findEntry env componentName (c # cs) =
     bindE (getField env c (ascii ''name'')) (\<lambda>n.
       case n of
         Some (JStr s) \<Rightarrow>
           (case componentName of
              JStr cn \<Rightarrow> if toLowerCase (runtime env) s = toLowerCase (runtime env) cn then Inr (Some c)
                         else findEntry env componentName cs
            | _ \<Rightarrow> typeError env)
       | _ \<Rightarrow> typeError env)"

definition template :: "Env \<Rightarrow> json \<Rightarrow> jsstring" where
  "template env v = (case v of JStr s \<Rightarrow> s | _ \<Rightarrow> String_of env v)"

text \<open>\<open>entry.file.replace(/^src\//, "build/")\<close>\<close>

definition toBuildPath :: "jsstring \<Rightarrow> jsstring" where
  "toBuildPath f = (if startsWith f (ascii ''src/'') then ascii ''build/'' @ drop 4 f else f)"

definition loadComponentData :: "Env \<Rightarrow> json \<Rightarrow> exn + json" where
  "loadComponentData env componentName =
     (case findExisting env (indexCandidates env) of
        None \<Rightarrow> Inl (Error (indexNotFoundText env))
      | Some indexFile \<Rightarrow>
          bindE (readJson env indexFile) (\<lambda>indexJson.
          bindE (componentsOf env indexJson) (\<lambda>es.
          bindE (findEntry env componentName es) (\<lambda>entry.
            case entry of
              None \<Rightarrow>
                Inl (Error (ascii ''Component '' @ [39] @ template env componentName @ [39] @
                            ascii '' not found''))
            | Some e \<Rightarrow>
                bindE (getField env e (ascii ''file'')) (\<lambda>f.
                  case f of
                    Some (JStr file) \<Rightarrow>
                      (let fileCandidates =
                             [path_resolve env [projectRoot env, toBuildPath file],
                              path_resolve env [projectRoot env, file]]
                       in case findExisting env fileCandidates of
                            None \<Rightarrow>
                              Inl (Error (ascii ''Component file not found for '' @ [39] @
                                          template env componentName @ [39] @
                                          ascii ''. Candidates: '' @ joinComma fileCandidates))
                          | Some absPath \<Rightarrow> readJson env absPath)
                  | _ \<Rightarrow> typeError env)))))"

text \<open>
  The handlers of \<open>getComponentProps\<close> and \<open>getComponentEvents\<close> have the same text
  but for the property they return and the words of the failure; \<open>args\<close> is \<open>None\<close>
  when the caller passes no argument object.
\<close>

definition componentNameArg :: "(jsstring \<times> json) list option \<Rightarrow> json option" where
  "componentNameArg args =
     (case args of Some kvs \<Rightarrow> map_of kvs (ascii ''componentName'') | None \<Rightarrow> None)"

definition componentTool_try ::
  "jsstring \<Rightarrow> Env \<Rightarrow> (jsstring \<times> json) list option \<Rightarrow> exn + ToolResult" where
  "componentTool_try field env args =
     (let componentName = componentNameArg args
      in if \<not> truthy componentName
         then Inr (textResult (object [(ascii ''error'', Some (JStr
                (ascii ''componentName parameter is required. Available args: '' @
                 joinComma (map fst (case args of Some kvs \<Rightarrow> kvs | None \<Rightarrow> [])))))]))
         else
           bindE (loadComponentData env (the componentName)) (\<lambda>data.
           bindE (getField env data (ascii ''component'')) (\<lambda>component.
           bindE (getField env data field) (\<lambda>items.
             Inr (textResult (object [(ascii ''component'', component),
                                      (field, Some (orElse items (JArr []))),
                                      (ascii ''total'', Some (orElse (optLength items) (JNum 0)))]))))))"

definition componentTool ::
  "jsstring \<Rightarrow> jsstring \<Rightarrow> Env \<Rightarrow> (jsstring \<times> json) list option \<Rightarrow> exn + ToolResult" where
  "componentTool field failure env args =
     (case componentTool_try field env args of
        Inr r \<Rightarrow> Inr r
      | Inl e \<Rightarrow> Inr (textResult (object [(ascii ''error'', Some (JStr (failure @ message e)))])))"

definition getComponentProps :: "Env \<Rightarrow> (jsstring \<times> json) list option \<Rightarrow> exn + ToolResult" where
  "getComponentProps = componentTool (ascii ''props'') (ascii ''Failed to get component props: '')"

definition getComponentEvents :: "Env \<Rightarrow> (jsstring \<times> json) list option \<Rightarrow> exn + ToolResult" where
  "getComponentEvents = componentTool (ascii ''events'') (ascii ''Failed to get component events: '')"

section \<open>Example inputs\<close>

text \<open>The document of the Button scenario: a heading, a header row, a separator row and
  one data row.\<close>

definition buttonHeader :: jsstring where
  "buttonHeader =
     ascii ''| '' @ L_name @ ascii '' | '' @ L_type @ ascii '' | '' @ L_default @
     ascii '' | '' @ L_desc @ ascii '' | '' @ L_required @ ascii '' |''"

definition buttonStyle :: jsstring where
  "buttonStyle = [0x6309, 0x94AE, 0x98CE, 0x683C]"

definition buttonLines :: "jsstring list" where
  "buttonLines =
     [ascii ''### Button Props'',
      buttonHeader,
      ascii ''| -- | -- | -- | -- | -- |'',
      ascii ''| theme | string | default | '' @ buttonStyle @ ascii '' | N |'']"

definition buttonText :: jsstring where
  "buttonText = buttonLines ! 0 @ [10] @ buttonLines ! 1 @ [10] @ buttonLines ! 2 @ [10] @ buttonLines ! 3"

definition buttonDoc :: ComponentDocJson where
  "buttonDoc =
     \<lparr>doc_component = ascii ''Button'',
      doc_props = [\<lparr>prop_name = ascii ''theme'', prop_type = ascii ''string'',
                    prop_defaultValue = Some (ascii ''default''), prop_description = buttonStyle,
                    prop_required = False\<rparr>],
      doc_events = [],
      doc_methods = None\<rparr>"

text \<open>A props table whose data rows have the placeholder \<open>-\<close>, nothing and a value
  in the default-value column.\<close>

definition dashRowTable :: "jsstring list" where
  "dashRowTable =
     [buttonHeader,
      ascii ''| -- | -- | -- | -- | -- |'',
      ascii ''| size | string | - | '' @ buttonStyle @ ascii '' | N |'',
      ascii ''| shape | string |   | '' @ buttonStyle @ ascii '' | N |'',
      ascii ''| theme | string |  default  | '' @ buttonStyle @ ascii '' | N |'']"

text \<open>The default-value cell of data row \<open>k\<close> of a table, trimmed, as
  \<open>parsePropsTable\<close> reads it.\<close>

definition defaultCell :: "Runtime \<Rightarrow> jsstring list \<Rightarrow> nat \<Rightarrow> jsstring" where
  "defaultCell rt tableLines k =
     trim (cellOrEmpty (rows (parseMarkdownTable rt tableLines) ! k)
             (indexOf (headers (parseMarkdownTable rt tableLines)) L_default))"

text \<open>
  A store whose index already lists the component under a lower-case name, and one whose
  index lists \<open>Button\<close> and \<open>index\<close>; a record for a component named \<open>index\<close> and
  the one entry made for it. \<open>entryNamed\<close> says that an entry has the name of a
  component up to case, as the scan of \<open>processComponent\<close> compares them;
  \<open>indexReadable\<close> says that no entry of the index makes that scan throw.
\<close>

definition lowerButtonEntries :: "IndexEntry list" where
  "lowerButtonEntries =
     [Entry (NameString (ascii ''button'')) (Some (ascii ''src/data/components/button.json''))]"

definition lowerButtonStore :: Store where
  "lowerButtonStore = [indexFileRel \<mapsto> IndexEntries lowerButtonEntries]"

definition twoEntries :: "IndexEntry list" where
  "twoEntries =
     [Entry (NameString (ascii ''Button'')) (Some (ascii ''src/data/components/Button.json'')),
      Entry (NameString (ascii ''index'')) (Some (ascii ''src/data/components/index.json''))]"

definition twoEntryStore :: Store where
  "twoEntryStore = [indexFileRel \<mapsto> IndexEntries twoEntries]"

definition indexDoc :: ComponentDocJson where
  "indexDoc = \<lparr>doc_component = ascii ''index'', doc_props = [], doc_events = [], doc_methods = None\<rparr>"

definition indexOwnEntry :: IndexEntry where
  "indexOwnEntry = Entry (NameString (ascii ''index'')) (Some indexFileRel)"

fun entryNamed :: "Runtime \<Rightarrow> jsstring \<Rightarrow> IndexEntry \<Rightarrow> bool" where
  "entryNamed rt component NullEntry \<longleftrightarrow> False"
| "entryNamed rt component (Entry NameOther f) \<longleftrightarrow> False"
| "entryNamed rt component (Entry NameAbsent f) \<longleftrightarrow> toLowerCase rt [] = toLowerCase rt component"
| "entryNamed rt component (Entry (NameString n) f) \<longleftrightarrow> toLowerCase rt n = toLowerCase rt component"

fun entryReadable :: "IndexEntry \<Rightarrow> bool" where
  "entryReadable NullEntry \<longleftrightarrow> False"
| "entryReadable (Entry NameOther f) \<longleftrightarrow> False"
| "entryReadable (Entry n f) \<longleftrightarrow> True"

definition indexReadable :: "Store \<Rightarrow> bool" where
  "indexReadable st \<longleftrightarrow> list_all entryReadable (indexComponents st)"

text \<open>
  What the scenarios ask of the engine's case mappings: on a string of Basic Latin code
  units and CJK ideographs they are the Basic Latin mappings (\<open>caseExactOnPlain\<close>);
  lower-casing commutes with trimming and neither makes nor unmakes the marker of a
  heading at the start of a string (\<open>caseKeepsLayout\<close>). The engine's mappings have these
  properties; so has \<open>basicLatin\<close>.
\<close>

definition isPlainChar :: "jschar \<Rightarrow> bool" where
  "isPlainChar c \<longleftrightarrow> c < 128 \<or> (0x4E00 \<le> c \<and> c \<le> 0x9FFF)"

definition caseExactOnPlain :: "Runtime \<Rightarrow> bool" where
  "caseExactOnPlain rt \<longleftrightarrow>
     (\<forall>s. list_all isPlainChar s \<longrightarrow>
        toLowerCase rt s = map lowerChar s \<and> toUpperCase rt s = map upperChar s)"

definition caseKeepsLayout :: "Runtime \<Rightarrow> bool" where
  "caseKeepsLayout rt \<longleftrightarrow>
     (\<forall>s. toLowerCase rt (trim s) = trim (toLowerCase rt s)) \<and>
     (\<forall>s. startsWith (toLowerCase rt s) H3 \<longleftrightarrow> startsWith s H3)"

text \<open>
  Rows built from cell sources. In a cell source every pipe is escaped, that is, comes
  immediately after a backslash, and the cell does not end in a backslash (which would
  escape the delimiter that follows it). \<open>tableRow\<close> writes the cells with pipes between
  them, with or without a pipe before the first and after the last;
  \<open>cellValue\<close> is what the tokenizer makes of one cell: escaped pipes replaced, trimmed,
  placeholders restored.
\<close>

fun pipesEscapedFrom :: "bool \<Rightarrow> jsstring \<Rightarrow> bool" where
  "pipesEscapedFrom afterBackslash [] \<longleftrightarrow> True"
| "pipesEscapedFrom afterBackslash (c # cs) \<longleftrightarrow>
     (c = pipe \<longrightarrow> afterBackslash) \<and> pipesEscapedFrom (c = backslash) cs"

definition isCellSource :: "jsstring \<Rightarrow> bool" where
  "isCellSource c \<longleftrightarrow> pipesEscapedFrom False c \<and> (c = [] \<or> last c \<noteq> backslash)"

fun joinPipes :: "jsstring list \<Rightarrow> jsstring" where
  "joinPipes [] = []"
| "joinPipes [c] = c"
| "joinPipes (c # d # r) = c @ pipe # joinPipes (d # r)"

definition outerPipe :: "bool \<Rightarrow> jsstring" where
  "outerPipe present = (if present then [pipe] else [])"

definition tableRow :: "bool \<Rightarrow> bool \<Rightarrow> jsstring list \<Rightarrow> jsstring" where
  "tableRow leading trailing cells = outerPipe leading @ joinPipes cells @ outerPipe trailing"

text \<open>The raw cells of the text before an escaped pipe and of the text after it, as the
  tokenizer splits them.\<close>

definition cellsBefore :: "jsstring \<Rightarrow> jsstring list" where
  "cellsBefore x = split pipe (stripLeadingPipe (escapePipes x))"

definition cellsAfter :: "jsstring \<Rightarrow> jsstring list" where
  "cellsAfter y = split pipe (stripTrailingPipe (escapePipes y))"

definition cellValue :: "jsstring \<Rightarrow> jsstring" where
  "cellValue c = restorePipes (escapePipes c)"

text \<open>The cells of a row with an escaped pipe in its first cell.\<close>

definition escapedRowCells :: "jsstring list" where
  "escapedRowCells = [ascii '' a '' @ [backslash, pipe] @ ascii '' b '', ascii '' c '']"

text \<open>
  The section extractor in the words of the specification: the heading text of a line
  matches the label when the trimmed line is the marker and the label, up to case; a
  heading of the same or a coarser level is a line whose trimmed text starts with one, two
  or three hashes and a space; the section runs from the first matching line up to the
  next such heading.
\<close>

definition spec_matchesLabel :: "Runtime \<Rightarrow> jsstring \<Rightarrow> jsstring \<Rightarrow> bool" where
  "spec_matchesLabel rt heading l \<longleftrightarrow> toLowerCase rt (trim l) = H3 @ toLowerCase rt heading"

definition spec_isHeadingSameOrCoarser :: "jsstring \<Rightarrow> bool" where
  "spec_isHeadingSameOrCoarser l \<longleftrightarrow>
     startsWith (trim l) (ascii ''# '') \<or> startsWith (trim l) (ascii ''## '') \<or>
     startsWith (trim l) (ascii ''### '')"

definition spec_extractSection :: "Runtime \<Rightarrow> jsstring list \<Rightarrow> jsstring \<Rightarrow> jsstring list" where
  "spec_extractSection rt lines heading =
     (case findIndex (spec_matchesLabel rt heading) lines of
        None \<Rightarrow> []
      | Some i \<Rightarrow> takeWhile (\<lambda>l. \<not> spec_isHeadingSameOrCoarser l) (drop (i + 1) lines))"

text \<open>A section followed by a heading of a coarser level, a heading with words after the
  label, and a document with two sections.\<close>

definition coarserHeadingLines :: "jsstring list" where
  "coarserHeadingLines = [ascii ''### A'', ascii ''x'', ascii ''## B'', ascii ''y'']"

definition longerHeadingLines :: "jsstring list" where
  "longerHeadingLines = [ascii ''### Button Props (API)'', ascii ''x'']"

definition twoSectionLines :: "jsstring list" where
  "twoSectionLines =
     [ascii ''intro'', ascii ''### Button Props'', ascii ''a'', ascii ''## note'', ascii ''b'',
      ascii ''  ### Button Events'', ascii ''c'']"

text \<open>
  A header and separator pair at index \<open>i\<close> of the right-trimmed lines of a section, as
  the first loop of \<open>extractFirstTable\<close> tests it.
\<close>

definition tablePairAt :: "jsstring list \<Rightarrow> nat \<Rightarrow> bool" where
  "tablePairAt ls i \<longleftrightarrow>
     Suc i < length ls \<and> isCandidateHeader (trim (ls ! i)) \<and> separatorTest (ls ! Suc i)"

text \<open>
  The separator line in the words of the specification: a run of two or more dashes
  between pipe delimiters, white space allowed around the run.
\<close>

fun spec_separatorLine :: "jsstring \<Rightarrow> bool" where
  "spec_separatorLine [] \<longleftrightarrow> False"
| "spec_separatorLine (c # cs) \<longleftrightarrow>
     (c = pipe \<and>
      (let r = dropWhile isWhiteSpace cs;
           run = takeWhile (\<lambda>x. x = dash) r;
           rest = dropWhile isWhiteSpace (dropWhile (\<lambda>x. x = dash) r)
       in 2 \<le> length run \<and> startsWith rest [pipe])) \<or>
     spec_separatorLine cs"

text \<open>A section whose second line has dashes after one pipe and no closing pipe, and a
  section with text, a table, a blank line and a second table.\<close>

definition openSeparatorSection :: "jsstring list" where
  "openSeparatorSection = [ascii ''a|b'', ascii ''|--'']"

definition tableSection :: "jsstring list" where
  "tableSection =
     [ascii ''some text'', ascii ''| h1 | h2 |  '', ascii ''| -- | -- |'', ascii ''| a | b |'',
      ascii '''', ascii ''| x | y |'']"

text \<open>A document with two props headings, the second indented and in upper case with
  words after it.\<close>

definition twoComponentLines :: "jsstring list" where
  "twoComponentLines =
     [ascii ''### Button Props'', buttonHeader, ascii ''| -- | -- | -- | -- | -- |'',
      ascii ''| theme | string | default | '' @ buttonStyle @ ascii '' | N |'',
      ascii ''  ### Input PROPS (all)  '', buttonHeader, ascii ''| -- | -- | -- | -- | -- |'',
      ascii ''| size | string | - | '' @ buttonStyle @ ascii '' | Y |'']"

text \<open>The trimmed texts of the lines that are props headings, in document order: what
  the dispatcher counts.\<close>

definition propsHeadings :: "Runtime \<Rightarrow> jsstring list \<Rightarrow> jsstring list" where
  "propsHeadings rt lines = filter (isPropsHeading rt) (map trim lines)"

text \<open>
  The name in the words of the specification: the heading text with the marker stripped
  from its start and the suffix \<open>Props\<close>, in any case, stripped from its end.
\<close>

definition spec_componentName :: "jsstring \<Rightarrow> jsstring" where
  "spec_componentName h =
     (let t = trim (if startsWith h H3 then drop 4 h else h)
      in if startsWith (regexFold (rev t)) (rev (ascii ''props''))
         then trim (take (length t - 5) t) else t)"

text \<open>
  The failures of the query tools, named as the callers see them. The index file is
  missing when neither candidate exists; it is broken when it exists and reading or parsing
  it throws. A component is not found when the index lists no entry of that name; its file
  is missing when neither candidate of the entry exists, and broken when reading or parsing
  it throws. \<open>returnsError\<close> says that a handler returned normally and that the text it
  returned carries an \<open>error\<close> field.
\<close>

definition indexMissing :: "Env \<Rightarrow> bool" where
  "indexMissing env \<longleftrightarrow> findExisting env (indexCandidates env) = None"

definition indexBroken :: "Env \<Rightarrow> bool" where
  "indexBroken env \<longleftrightarrow>
     (case findExisting env (indexCandidates env) of
        Some p \<Rightarrow> isl (readJson env p)
      | None \<Rightarrow> False)"

definition componentNameMissing :: "(jsstring \<times> json) list option \<Rightarrow> bool" where
  "componentNameMissing args \<longleftrightarrow> \<not> truthy (componentNameArg args)"

text \<open>The entry of a component in a readable index: \<open>None\<close> when the index cannot be
  used, \<open>Some None\<close> when it lists no such component.\<close>

definition indexEntry :: "Env \<Rightarrow> json \<Rightarrow> json option option" where
  "indexEntry env componentName =
     (case findExisting env (indexCandidates env) of
        None \<Rightarrow> None
      | Some p \<Rightarrow>
          (case bindE (readJson env p) (\<lambda>j. bindE (componentsOf env j) (findEntry env componentName)) of
             Inr r \<Rightarrow> Some r
           | Inl _ \<Rightarrow> None))"

definition componentNotFound :: "Env \<Rightarrow> json \<Rightarrow> bool" where
  "componentNotFound env componentName \<longleftrightarrow> indexEntry env componentName = Some None"

definition entryFileCandidates :: "Env \<Rightarrow> json \<Rightarrow> jsstring list option" where
  "entryFileCandidates env componentName =
     (case indexEntry env componentName of
        Some (Some e) \<Rightarrow>
          (case getField env e (ascii ''file'') of
             Inr (Some (JStr file)) \<Rightarrow>
               Some [path_resolve env [projectRoot env, toBuildPath file],
                     path_resolve env [projectRoot env, file]]
           | _ \<Rightarrow> None)
      | _ \<Rightarrow> None)"

definition componentFileMissing :: "Env \<Rightarrow> json \<Rightarrow> bool" where
  "componentFileMissing env componentName \<longleftrightarrow>
     (case entryFileCandidates env componentName of
        Some cands \<Rightarrow> findExisting env cands = None
      | None \<Rightarrow> False)"

definition componentFileBroken :: "Env \<Rightarrow> json \<Rightarrow> bool" where
  "componentFileBroken env componentName \<longleftrightarrow>
     (case entryFileCandidates env componentName of
        Some cands \<Rightarrow>
          (case findExisting env cands of Some p \<Rightarrow> isl (readJson env p) | None \<Rightarrow> False)
      | None \<Rightarrow> False)"

definition returnsError :: "exn + ToolResult \<Rightarrow> bool" where
  "returnsError x \<longleftrightarrow> (case x of Inr r \<Rightarrow> hasError r | Inl _ \<Rightarrow> False)"

text \<open>
  A project for the examples: the paths are joined with slashes, the files are those of an
  association list (\<open>None\<close> for a directory, which exists and cannot be read), and the
  parser knows the texts of a second list.
\<close>

fun joinSlash :: "jsstring list \<Rightarrow> jsstring" where
  "joinSlash [] = []"
| "joinSlash [x] = x"
| "joinSlash (x # y # ys) = x @ [47] @ joinSlash (y # ys)"

definition exampleEnv :: "(jsstring \<times> jsstring option) list \<Rightarrow> (jsstring \<times> json) list \<Rightarrow> Env" where
  "exampleEnv files texts =
     \<lparr>projectRoot = ascii ''/srv'',
      path_resolve = joinSlash,
      existsSync = (\<lambda>p. map_of files p \<noteq> None),
      readFileSync = (\<lambda>p. case map_of files p of
                             Some (Some text) \<Rightarrow> Inr text
                           | _ \<Rightarrow> Inl (Error (ascii ''cannot read''))),
      JSON_parse = (\<lambda>s. case map_of texts s of
                           Some j \<Rightarrow> Inr j
                         | None \<Rightarrow> Inl (Error (ascii ''Unexpected token''))),
      String_of = (\<lambda>v. ascii ''[object Object]''),
      runtime = basicLatin\<rparr>"

definition buttonIndex :: json where
  "buttonIndex =
     JObj [(ascii ''components'',
            JArr [JObj [(ascii ''name'', JStr (ascii ''Button'')),
                        (ascii ''file'', JStr (ascii ''src/data/components/Button.json''))]])]"

definition indexPath :: jsstring where
  "indexPath = ascii ''/srv/src/data/components/index.json''"

definition buttonPath :: jsstring where
  "buttonPath = ascii ''/srv/src/data/components/Button.json''"

definition parserTexts :: "(jsstring \<times> json) list" where
  "parserTexts = [(ascii ''index'', buttonIndex), (ascii ''button'', JObj [(ascii ''component'', JStr (ascii ''Button''))])]"

definition envNoFiles :: Env where
  "envNoFiles = exampleEnv [] parserTexts"

definition envBadIndex :: Env where
  "envBadIndex = exampleEnv [(indexPath, Some (ascii ''not json''))] parserTexts"

definition envNoButtonFile :: Env where
  "envNoButtonFile = exampleEnv [(indexPath, Some (ascii ''index''))] parserTexts"

definition envBadButtonFile :: Env where
  "envBadButtonFile =
     exampleEnv [(indexPath, Some (ascii ''index'')), (buttonPath, None)] parserTexts"

definition envGood :: Env where
  "envGood =
     exampleEnv [(indexPath, Some (ascii ''index'')), (buttonPath, Some (ascii ''button''))] parserTexts"

definition askButton :: "(jsstring \<times> json) list option" where
  "askButton = Some [(ascii ''componentName'', JStr (ascii ''button''))]"

definition askTabs :: "(jsstring \<times> json) list option" where
  "askTabs = Some [(ascii ''componentName'', JStr (ascii ''Tabs''))]"


section \<open>Properties\<close>

subsection \<open>Interpreters\<close>

lemma split_not_Nil: "split sep s \<noteq> []"
  by (induction s) (auto split: list.splits)

lemma splitRow_not_Nil: "splitRowPreservingEscapedPipes row \<noteq> []"
  by (simp add: splitRowPreservingEscapedPipes_def split_not_Nil)

lemma headers_empty_iff: "headers (parseMarkdownTable rt ls) = [] \<longleftrightarrow> length ls < 2"
  by (simp add: parseMarkdownTable_def Let_def splitRow_not_Nil)

lemma rows_short: "length ls < 2 \<Longrightarrow> rows (parseMarkdownTable rt ls) = []"
  by (simp add: parseMarkdownTable_def)

text \<open>
  Claim C7. When no table was located, that is when the table lines are empty or fewer
  than two, each of the three interpreters returns the empty list of records, whatever the
  case mappings of the engine are. The interpreters are total functions with no failing
  branch, as in the source, so nothing is raised. The second half says the same of the
  lines the table locator returns for a section.
\<close>

theorem C7_no_table_no_records:
  "(length tableLines < 2 \<longrightarrow>
      parsePropsTable rt tableLines = [] \<and> parseEventsTable rt tableLines = [] \<and>
      parseMethodsTable rt tableLines = []) \<and>
   (length (extractFirstTable sectionLines) < 2 \<longrightarrow>
      parsePropsTable rt (extractFirstTable sectionLines) = [] \<and>
      parseEventsTable rt (extractFirstTable sectionLines) = [] \<and>
      parseMethodsTable rt (extractFirstTable sectionLines) = [])"
  by (simp add: parsePropsTable_def parseEventsTable_def parseMethodsTable_def Let_def
      headers_empty_iff)

theorem C7_no_table_no_records_witness:
  "length ([] :: jsstring list) < 2 \<and>
   parsePropsTable basicLatin [] = [] \<and> parseEventsTable basicLatin [] = [] \<and>
   parseMethodsTable basicLatin [] = [] \<and>
   length (extractFirstTable [ascii ''plain text'']) < 2 \<and>
   parsePropsTable basicLatin (extractFirstTable [ascii ''plain text'']) = [] \<and>
   parseEventsTable basicLatin (extractFirstTable [ascii ''plain text'']) = [] \<and>
   parseMethodsTable basicLatin (extractFirstTable [ascii ''plain text'']) = []"
proof -
  have a: "length ([] :: jsstring list) < 2" by simp
  have b: "length (extractFirstTable [ascii ''plain text'']) < 2" by code_simp
  from a b C7_no_table_no_records [of "[]" basicLatin "[ascii ''plain text'']"]
  show ?thesis by blast
qed

text \<open>
  Claim C6. For every data row \<open>k\<close> of a props table, the record produced for it has no
  default value (\<open>null\<close>) exactly when the trimmed default-value cell is empty or is the
  placeholder \<open>-\<close>, and otherwise its default value is the trimmed cell. There is one
  record for each data row. This holds whatever the case mappings of the engine are.
\<close>

theorem C6_default_value:
  assumes "k < length (rows (parseMarkdownTable rt tableLines))"
  shows "length (parsePropsTable rt tableLines) = length (rows (parseMarkdownTable rt tableLines)) \<and>
         (prop_defaultValue (parsePropsTable rt tableLines ! k) = None \<longleftrightarrow>
            defaultCell rt tableLines k = [] \<or> defaultCell rt tableLines k = ascii ''-'') \<and>
         (defaultCell rt tableLines k \<noteq> [] \<and> defaultCell rt tableLines k \<noteq> ascii ''-'' \<longrightarrow>
            prop_defaultValue (parsePropsTable rt tableLines ! k) = Some (defaultCell rt tableLines k))"
proof -
  have "\<not> length tableLines < 2" using assms rows_short by fastforce
  then have h: "headers (parseMarkdownTable rt tableLines) \<noteq> []" by (simp add: headers_empty_iff)
  then have p: "parsePropsTable rt tableLines =
      map (propRow rt (headers (parseMarkdownTable rt tableLines)))
        (rows (parseMarkdownTable rt tableLines))"
    by (simp add: parsePropsTable_def Let_def)
  have d: "ascii ''-'' = [45]" by (simp add: ascii_def)
  show ?thesis using assms unfolding p defaultCell_def
    by (simp add: propRow_def Let_def d)
qed

theorem C6_default_value_witness:
  "length (rows (parseMarkdownTable basicLatin dashRowTable)) = 3 \<and>
   length (parsePropsTable basicLatin dashRowTable) = 3 \<and>
   defaultCell basicLatin dashRowTable 0 = ascii ''-'' \<and>
   prop_defaultValue (parsePropsTable basicLatin dashRowTable ! 0) = None \<and>
   defaultCell basicLatin dashRowTable 1 = [] \<and>
   prop_defaultValue (parsePropsTable basicLatin dashRowTable ! 1) = None \<and>
   defaultCell basicLatin dashRowTable 2 = ascii ''default'' \<and>
   prop_defaultValue (parsePropsTable basicLatin dashRowTable ! 2) = Some (ascii ''default'')"
proof -
  have n: "length (rows (parseMarkdownTable basicLatin dashRowTable)) = 3" by code_simp
  have b0: "defaultCell basicLatin dashRowTable 0 = ascii ''-''" by code_simp
  have b1: "defaultCell basicLatin dashRowTable 1 = []" by code_simp
  have b2: "defaultCell basicLatin dashRowTable 2 = ascii ''default''" by code_simp
  have d: "ascii ''default'' \<noteq> [] \<and> ascii ''default'' \<noteq> ascii ''-''" by code_simp
  have "0 < length (rows (parseMarkdownTable basicLatin dashRowTable))" using n by simp
  from C6_default_value [OF this] b0 n
  have r0: "length (parsePropsTable basicLatin dashRowTable) = 3 \<and>
      prop_defaultValue (parsePropsTable basicLatin dashRowTable ! 0) = None" by simp
  have "1 < length (rows (parseMarkdownTable basicLatin dashRowTable))" using n by simp
  from C6_default_value [OF this] b1
  have r1: "prop_defaultValue (parsePropsTable basicLatin dashRowTable ! 1) = None" by simp
  have "2 < length (rows (parseMarkdownTable basicLatin dashRowTable))" using n by simp
  from C6_default_value [OF this] b2 d
  have r2: "prop_defaultValue (parsePropsTable basicLatin dashRowTable ! 2) = Some (ascii ''default'')"
    by simp
  from n b0 b1 b2 r0 r1 r2 show ?thesis by blast
qed
subsection \<open>Row tokenizer\<close>

lemma escapePipes_Nil: "escapePipes [] = []"
  by (simp add: escapePipes_def)

lemma escapePipes_single: "escapePipes [c] = [c]"
  by (simp add: escapePipes_def startsWith_def)

lemma escapePipes_Cons2:
  "escapePipes (c # d # r) =
     (if c = backslash \<and> d = pipe then PLACEHOLDER @ escapePipes r else c # escapePipes (d # r))"
  by (simp add: escapePipes_def startsWith_def)

lemma escapePipes_append:
  "\<not> (x \<noteq> [] \<and> last x = backslash \<and> z \<noteq> [] \<and> hd z = pipe) \<Longrightarrow>
   escapePipes (x @ z) = escapePipes x @ escapePipes z"
proof (induction x rule: induct_list012)
  case 1
  then show ?case by (simp add: escapePipes_Nil)
next
  case (2 c)
  then show ?case
    by (cases z) (auto simp: escapePipes_Nil escapePipes_single escapePipes_Cons2)
next
  case (3 c d r)
  then show ?case
    by (cases "r = []") (auto simp: escapePipes_Cons2 escapePipes_Nil)
qed

lemma PLACEHOLDER_chars: "PLACEHOLDER = [95, 95, 69, 83, 67, 65, 80, 69, 68, 95, 80, 73, 80, 69, 95, 95]"
  by code_simp



lemma escapePipes_escaped:
  "escapePipes (x @ backslash # pipe # y) = escapePipes x @ PLACEHOLDER @ escapePipes y"
proof -
  have a: "escapePipes (x @ [backslash, pipe] @ y) = escapePipes x @ escapePipes ([backslash, pipe] @ y)"
    by (rule escapePipes_append) (simp add: pipe_def backslash_def)
  show ?thesis using a by (simp add: escapePipes_Cons2)
qed









lemma escapePipes_Cons_other: "c \<noteq> backslash \<Longrightarrow> escapePipes (c # r) = c # escapePipes r"
  by (cases r) (simp_all add: escapePipes_single escapePipes_Cons2 escapePipes_Nil)

lemma escapePipes_eq_Nil: "escapePipes c = [] \<longleftrightarrow> c = []"
  by (induction c rule: induct_list012)
    (simp_all add: escapePipes_Nil escapePipes_single escapePipes_Cons2 PLACEHOLDER_chars)

lemma pipesEscaped_no_pipe: "pipesEscapedFrom False c \<Longrightarrow> pipe \<notin> set (escapePipes c)"
proof (induction c rule: induct_list012)
  case 1
  then show ?case by (simp add: escapePipes_Nil)
next
  case (2 c)
  then show ?case by (simp add: escapePipes_single)
next
  case (3 c d r)
  show ?case
  proof (cases "c = backslash \<and> d = pipe")
    case True
    with 3 have "pipesEscapedFrom False r" by (simp add: pipe_def backslash_def)
    with 3 True show ?thesis
      by (simp add: escapePipes_Cons2 PLACEHOLDER_chars pipe_def)
  next
    case False
    with 3 have "pipesEscapedFrom False (d # r)" by auto
    with 3 False show ?thesis by (auto simp: escapePipes_Cons2)
  qed
qed

lemma escapePipes_cell_pipe:
  "c = [] \<or> last c \<noteq> backslash \<Longrightarrow> escapePipes (c @ pipe # z) = escapePipes c @ pipe # escapePipes z"
proof -
  assume "c = [] \<or> last c \<noteq> backslash"
  then have "escapePipes (c @ pipe # z) = escapePipes c @ escapePipes (pipe # z)"
    by (intro escapePipes_append) auto
  then show ?thesis by (simp add: escapePipes_Cons_other pipe_def backslash_def)
qed

lemma escapePipes_joinPipes:
  "\<forall>c \<in> set cs. c = [] \<or> last c \<noteq> backslash \<Longrightarrow>
   escapePipes (joinPipes cs) = joinPipes (map escapePipes cs)"
  by (induction cs rule: joinPipes.induct) (simp_all add: escapePipes_Nil escapePipes_cell_pipe)

lemma joinPipes_snoc_empty: "cs \<noteq> [] \<Longrightarrow> joinPipes (cs @ [[]]) = joinPipes cs @ [pipe]"
  by (induction cs rule: joinPipes.induct) simp_all

lemma escapePipes_joinPipes_pipe:
  assumes "cs \<noteq> []" and "\<forall>c \<in> set cs. c = [] \<or> last c \<noteq> backslash"
  shows "escapePipes (joinPipes cs @ [pipe]) = joinPipes (map escapePipes cs) @ [pipe]"
proof -
  have "escapePipes (joinPipes (cs @ [[]])) = joinPipes (map escapePipes (cs @ [[]]))"
    using assms(2) by (intro escapePipes_joinPipes) auto
  then show ?thesis
    using assms(1) joinPipes_snoc_empty [of cs] joinPipes_snoc_empty [of "map escapePipes cs"]
    by (simp add: escapePipes_Nil)
qed

lemma escapePipes_tableRow:
  assumes "cs \<noteq> []" and "\<forall>c \<in> set cs. c = [] \<or> last c \<noteq> backslash"
  shows "escapePipes (tableRow leading trailing cs) =
         outerPipe leading @ joinPipes (map escapePipes cs) @ outerPipe trailing"
proof -
  have a: "escapePipes (joinPipes cs @ outerPipe trailing) =
      joinPipes (map escapePipes cs) @ outerPipe trailing"
    using assms
    by (cases trailing) (simp_all add: outerPipe_def escapePipes_joinPipes_pipe escapePipes_joinPipes)
  show ?thesis
  proof (cases leading)
    case True
    then have "tableRow leading trailing cs = pipe # (joinPipes cs @ outerPipe trailing)"
      by (simp add: tableRow_def outerPipe_def)
    then show ?thesis using True a
      by (simp add: escapePipes_Cons_other pipe_def backslash_def outerPipe_def)
  next
    case False
    then show ?thesis using a by (simp add: tableRow_def outerPipe_def)
  qed
qed

lemma split_no_sep: "sep \<notin> set x \<Longrightarrow> split sep x = [x]"
  by (induction x) auto

lemma split_at_sep: "sep \<notin> set x \<Longrightarrow> split sep (x @ sep # r) = x # split sep r"
  by (induction x) auto

lemma split_joinPipes:
  "xs \<noteq> [] \<Longrightarrow> \<forall>x \<in> set xs. pipe \<notin> set x \<Longrightarrow> split pipe (joinPipes xs) = xs"
  by (induction xs rule: joinPipes.induct) (simp_all add: split_no_sep split_at_sep)

lemma joinPipes_hd:
  "xs \<noteq> [] \<Longrightarrow> hd xs \<noteq> [] \<Longrightarrow> joinPipes xs \<noteq> [] \<and> hd (joinPipes xs) = hd (hd xs)"
  by (induction xs rule: joinPipes.induct) auto

lemma joinPipes_last:
  "xs \<noteq> [] \<Longrightarrow> last xs \<noteq> [] \<Longrightarrow> joinPipes xs \<noteq> [] \<and> last (joinPipes xs) = last (last xs)"
  by (induction xs rule: joinPipes.induct) auto

lemma strip_outer_pipes:
  assumes "xs \<noteq> []" and "\<forall>x \<in> set xs. pipe \<notin> set x"
    and "\<not> leading \<longrightarrow> hd xs \<noteq> []" and "\<not> trailing \<longrightarrow> last xs \<noteq> []"
  shows "stripTrailingPipe (stripLeadingPipe (outerPipe leading @ joinPipes xs @ outerPipe trailing)) =
         joinPipes xs"
proof -
  have l: "stripLeadingPipe (outerPipe leading @ joinPipes xs @ outerPipe trailing) =
      joinPipes xs @ outerPipe trailing"
  proof (cases leading)
    case True
    then show ?thesis by (simp add: outerPipe_def stripLeadingPipe_def)
  next
    case False
    then have ne: "joinPipes xs \<noteq> []" and h: "hd (joinPipes xs) = hd (hd xs)"
      using assms(1,3) joinPipes_hd by blast+
    have "hd (hd xs) \<in> set (hd xs)" using assms(3) False by simp
    moreover have "hd xs \<in> set xs" using assms(1) by simp
    ultimately have "hd (joinPipes xs) \<noteq> pipe" using assms(2) h by metis
    then show ?thesis using ne False
      by (cases "joinPipes xs") (simp_all add: outerPipe_def stripLeadingPipe_def)
  qed
  have t: "stripTrailingPipe (joinPipes xs @ outerPipe trailing) = joinPipes xs"
  proof (cases trailing)
    case True
    then show ?thesis by (simp add: outerPipe_def stripTrailingPipe_def)
  next
    case False
    then have ne: "joinPipes xs \<noteq> []" and h: "last (joinPipes xs) = last (last xs)"
      using assms(1,4) joinPipes_last by blast+
    have "last (last xs) \<in> set (last xs)" using assms(4) False by simp
    moreover have "last xs \<in> set xs" using assms(1) by simp
    ultimately have "last (joinPipes xs) \<noteq> pipe" using assms(2) h by metis
    then show ?thesis using ne False by (simp add: outerPipe_def stripTrailingPipe_def)
  qed
  show ?thesis by (simp only: l t)
qed

lemma splitRow_tableRow:
  assumes "cells \<noteq> []" and "\<forall>c \<in> set cells. isCellSource c"
    and "\<not> leading \<longrightarrow> hd cells \<noteq> []" and "\<not> trailing \<longrightarrow> last cells \<noteq> []"
  shows "splitRowPreservingEscapedPipes (tableRow leading trailing cells) = map cellValue cells"
proof -
  let ?xs = "map escapePipes cells"
  have e: "escapePipes (tableRow leading trailing cells) =
      outerPipe leading @ joinPipes ?xs @ outerPipe trailing"
    using assms(1,2) by (intro escapePipes_tableRow) (auto simp: isCellSource_def)
  have np: "\<forall>x \<in> set ?xs. pipe \<notin> set x"
    using assms(2) by (auto simp: isCellSource_def pipesEscaped_no_pipe)
  have ne: "?xs \<noteq> []" using assms(1) by simp
  have h: "\<not> leading \<longrightarrow> hd ?xs \<noteq> []"
    using assms(1,3) by (simp add: hd_map escapePipes_eq_Nil)
  have l: "\<not> trailing \<longrightarrow> last ?xs \<noteq> []"
    using assms(1,4) by (simp add: last_map escapePipes_eq_Nil)
  have s: "stripTrailingPipe (stripLeadingPipe (outerPipe leading @ joinPipes ?xs @ outerPipe trailing)) =
      joinPipes ?xs"
    by (rule strip_outer_pipes [OF ne np h l])
  have "split pipe (joinPipes ?xs) = ?xs" by (rule split_joinPipes [OF ne np])
  then show ?thesis
    by (simp add: splitRowPreservingEscapedPipes_def e s cellValue_def)
qed

lemma dropWhile_ws_PLACEHOLDER: "dropWhile isWhiteSpace (PLACEHOLDER @ v) = PLACEHOLDER @ v"
  by (simp add: PLACEHOLDER_chars isWhiteSpace_def)

lemma dropWhile_ws_rev_PLACEHOLDER: "dropWhile isWhiteSpace (rev PLACEHOLDER @ v) = rev PLACEHOLDER @ v"
  by (simp add: PLACEHOLDER_chars isWhiteSpace_def)

lemma dropWhile_keeps_suffix: "dropWhile P w = w \<Longrightarrow> \<exists>u1. dropWhile P (u @ w) = u1 @ w"
  by (induction u) auto

lemma trim_keeps_PLACEHOLDER: "\<exists>u' v'. trim (u @ PLACEHOLDER @ v) = u' @ PLACEHOLDER @ v'"
proof -
  obtain u1 where a: "trimStart (u @ PLACEHOLDER @ v) = u1 @ PLACEHOLDER @ v"
    unfolding trimStart_def using dropWhile_keeps_suffix [OF dropWhile_ws_PLACEHOLDER] by blast
  obtain w where "dropWhile isWhiteSpace (rev v @ rev PLACEHOLDER @ rev u1) = w @ rev PLACEHOLDER @ rev u1"
    using dropWhile_keeps_suffix [OF dropWhile_ws_rev_PLACEHOLDER] by blast
  then have "trimEnd (u1 @ PLACEHOLDER @ v) = u1 @ PLACEHOLDER @ rev w"
    by (simp add: trimEnd_def)
  with a show ?thesis by (auto simp: trim_def)
qed

lemma restore_gives_pipe: "pipe \<in> set (replaceAll PLACEHOLDER [pipe] (u @ PLACEHOLDER @ v))"
proof (induction u)
  case Nil
  have "startsWith (PLACEHOLDER @ v) PLACEHOLDER" by (simp add: startsWith_def)
  then show ?case by (simp add: PLACEHOLDER_chars)
next
  case (Cons c u)
  then show ?case by simp
qed

lemma restored_has_pipe: "pipe \<in> set (restorePipes (u @ PLACEHOLDER @ v))"
proof -
  obtain u' v' where "trim (u @ PLACEHOLDER @ v) = u' @ PLACEHOLDER @ v'"
    using trim_keeps_PLACEHOLDER by blast
  then show ?thesis by (simp add: restorePipes_def restore_gives_pipe)
qed

lemma cellValue_has_pipe: "pipe \<in> set (cellValue (u @ backslash # pipe # v))"
  by (simp add: cellValue_def escapePipes_escaped restored_has_pipe)

lemma split_append:
  "split sep (a @ b) =
     butlast (split sep a) @ (last (split sep a) @ hd (split sep b)) # tl (split sep b)"
proof (induction a)
  case Nil
  then show ?case using split_not_Nil [of sep b] by simp
next
  case (Cons c a)
  obtain p ps where s: "split sep a = p # ps"
    using split_not_Nil [of sep a] by (cases "split sep a") auto
  show ?case using Cons s by (cases ps) auto
qed

lemma PLACEHOLDER_no_pipe: "pipe \<notin> set PLACEHOLDER"
  by (simp add: PLACEHOLDER_chars pipe_def)

lemma split_around_PLACEHOLDER:
  "split pipe (u @ PLACEHOLDER @ v) =
     butlast (split pipe u) @ (last (split pipe u) @ PLACEHOLDER @ hd (split pipe v)) # tl (split pipe v)"
proof -
  have "split pipe (PLACEHOLDER @ v) = (PLACEHOLDER @ hd (split pipe v)) # tl (split pipe v)"
    using split_append [of pipe PLACEHOLDER v] by (simp add: split_no_sep PLACEHOLDER_no_pipe)
  then show ?thesis using split_append [of pipe u "PLACEHOLDER @ v"] by simp
qed

lemma stripLeadingPipe_before:
  "stripLeadingPipe (a @ PLACEHOLDER @ b) = stripLeadingPipe a @ PLACEHOLDER @ b"
  by (cases a) (simp_all add: stripLeadingPipe_def PLACEHOLDER_chars pipe_def)

lemma stripTrailingPipe_after:
  "stripTrailingPipe (a @ PLACEHOLDER @ b) = a @ PLACEHOLDER @ stripTrailingPipe b"
  by (cases "b = []") (simp_all add: stripTrailingPipe_def PLACEHOLDER_chars pipe_def butlast_append)

lemma splitRow_escaped:
  "splitRowPreservingEscapedPipes (x @ backslash # pipe # y) =
     map restorePipes (butlast (cellsBefore x)) @
     restorePipes (last (cellsBefore x) @ PLACEHOLDER @ hd (cellsAfter y)) #
     map restorePipes (tl (cellsAfter y))"
  by (simp add: splitRowPreservingEscapedPipes_def escapePipes_escaped stripLeadingPipe_before
      stripTrailingPipe_after split_around_PLACEHOLDER cellsBefore_def cellsAfter_def)

lemma cells_not_Nil: "cellsBefore x \<noteq> []" "cellsAfter y \<noteq> []"
  by (simp_all add: cellsBefore_def cellsAfter_def split_not_Nil)

text \<open>
  Claim C5. Take any row and any escaped pipe in it, that is, any way of writing the row
  as a text \<open>x\<close>, a backslash, a pipe and a text \<open>y\<close>. The tokenizer returns the cells
  of \<open>x\<close> but the last, then one cell, then the cells of \<open>y\<close> but the first: the one
  cell is made of the last raw cell of \<open>x\<close>, the escaped pipe and the first raw cell of
  \<open>y\<close>, and its value contains the pipe character. So the escaped pipe adds no cell: the
  row has one cell fewer than \<open>x\<close> and \<open>y\<close> have together. In particular, for a row
  written as cells with pipes between them, with or without the outer pipes, where the
  pipes inside the cells are all escaped, the tokenizer returns one value for each cell,
  in order, and a cell that holds an escaped pipe has a value that holds the pipe
  character itself.
\<close>

theorem C5_escaped_pipe_single_cell:
  "splitRowPreservingEscapedPipes (x @ [backslash, pipe] @ y) =
     map restorePipes (butlast (cellsBefore x)) @
     [restorePipes (last (cellsBefore x) @ PLACEHOLDER @ hd (cellsAfter y))] @
     map restorePipes (tl (cellsAfter y)) \<and>
   pipe \<in> set (restorePipes (last (cellsBefore x) @ PLACEHOLDER @ hd (cellsAfter y))) \<and>
   pipe \<in> set (splitRowPreservingEscapedPipes (x @ [backslash, pipe] @ y) ! (length (cellsBefore x) - 1)) \<and>
   length (splitRowPreservingEscapedPipes (x @ [backslash, pipe] @ y)) + 1 =
     length (cellsBefore x) + length (cellsAfter y) \<and>
   (cells \<noteq> [] \<and> (\<forall>c \<in> set cells. isCellSource c) \<and>
    (\<not> leading \<longrightarrow> hd cells \<noteq> []) \<and> (\<not> trailing \<longrightarrow> last cells \<noteq> []) \<longrightarrow>
      splitRowPreservingEscapedPipes (tableRow leading trailing cells) = map cellValue cells \<and>
      length (splitRowPreservingEscapedPipes (tableRow leading trailing cells)) = length cells \<and>
      (\<forall>k < length cells. (\<exists>u v. cells ! k = u @ [backslash, pipe] @ v) \<longrightarrow>
         pipe \<in> set (splitRowPreservingEscapedPipes (tableRow leading trailing cells) ! k)))"
proof (intro conjI impI)
  let ?row = "x @ [backslash, pipe] @ y"
  let ?cell = "restorePipes (last (cellsBefore x) @ PLACEHOLDER @ hd (cellsAfter y))"
  show e: "splitRowPreservingEscapedPipes ?row =
     map restorePipes (butlast (cellsBefore x)) @ [?cell] @ map restorePipes (tl (cellsAfter y))"
    using splitRow_escaped [of x y] by simp
  show p: "pipe \<in> set ?cell" by (rule restored_has_pipe)
  have "length (map restorePipes (butlast (cellsBefore x))) = length (cellsBefore x) - 1" by simp
  then have "splitRowPreservingEscapedPipes ?row ! (length (cellsBefore x) - 1) = ?cell"
    unfolding e by (metis append_Cons nth_append_length)
  then show "pipe \<in> set (splitRowPreservingEscapedPipes ?row ! (length (cellsBefore x) - 1))"
    using p by simp
  have "length (cellsBefore x) \<noteq> 0" "length (cellsAfter y) \<noteq> 0" using cells_not_Nil by simp_all
  then show "length (splitRowPreservingEscapedPipes ?row) + 1 =
      length (cellsBefore x) + length (cellsAfter y)"
    unfolding e by simp
next
  assume a: "cells \<noteq> [] \<and> (\<forall>c \<in> set cells. isCellSource c) \<and>
    (\<not> leading \<longrightarrow> hd cells \<noteq> []) \<and> (\<not> trailing \<longrightarrow> last cells \<noteq> [])"
  then have s: "splitRowPreservingEscapedPipes (tableRow leading trailing cells) = map cellValue cells"
    by (intro splitRow_tableRow) auto
  then show "splitRowPreservingEscapedPipes (tableRow leading trailing cells) = map cellValue cells" .
  from s show "length (splitRowPreservingEscapedPipes (tableRow leading trailing cells)) = length cells"
    by simp
  from s show "\<forall>k < length cells. (\<exists>u v. cells ! k = u @ [backslash, pipe] @ v) \<longrightarrow>
      pipe \<in> set (splitRowPreservingEscapedPipes (tableRow leading trailing cells) ! k)"
    using cellValue_has_pipe by auto
qed

theorem C5_escaped_pipe_single_cell_witness:
  "ascii ''a '' @ [backslash, pipe] @ ascii '' b | c'' = ascii ''a '' @ [92, 124] @ ascii '' b | c'' \<and>
   cellsBefore (ascii ''a '') = [ascii ''a ''] \<and>
   cellsAfter (ascii '' b | c'') = [ascii '' b '', ascii '' c''] \<and>
   splitRowPreservingEscapedPipes (ascii ''a '' @ [backslash, pipe] @ ascii '' b | c'') =
     [ascii ''a | b'', ascii ''c''] \<and>
   pipe \<in> set (splitRowPreservingEscapedPipes (ascii ''a '' @ [backslash, pipe] @ ascii '' b | c'') ! 0) \<and>
   length escapedRowCells = 2 \<and>
   isCellSource (escapedRowCells ! 0) \<and> isCellSource (escapedRowCells ! 1) \<and>
   hd escapedRowCells \<noteq> [] \<and> last escapedRowCells \<noteq> [] \<and>
   escapedRowCells ! 0 = ascii '' a '' @ [backslash, pipe] @ ascii '' b '' \<and>
   tableRow True True escapedRowCells = ascii ''| a '' @ [backslash, pipe] @ ascii '' b | c |'' \<and>
   splitRowPreservingEscapedPipes (tableRow True True escapedRowCells) = [ascii ''a | b'', ascii ''c''] \<and>
   pipe \<in> set (splitRowPreservingEscapedPipes (tableRow True True escapedRowCells) ! 0) \<and>
   tableRow False False escapedRowCells = ascii '' a '' @ [backslash, pipe] @ ascii '' b | c '' \<and>
   splitRowPreservingEscapedPipes (tableRow False False escapedRowCells) = [ascii ''a | b'', ascii ''c''] \<and>
   pipe \<in> set (splitRowPreservingEscapedPipes (tableRow False False escapedRowCells) ! 0)"
proof -
  let ?x = "ascii ''a ''"
  let ?y = "ascii '' b | c''"
  have r: "?x @ [backslash, pipe] @ ?y = ?x @ [92, 124] @ ?y" by (simp add: backslash_def pipe_def)
  have cb: "cellsBefore ?x = [ascii ''a '']" by code_simp
  have ca: "cellsAfter ?y = [ascii '' b '', ascii '' c'']" by code_simp
  have v: "map restorePipes (butlast (cellsBefore ?x)) @
      [restorePipes (last (cellsBefore ?x) @ PLACEHOLDER @ hd (cellsAfter ?y))] @
      map restorePipes (tl (cellsAfter ?y)) = [ascii ''a | b'', ascii ''c'']" by code_simp
  have g: "splitRowPreservingEscapedPipes (?x @ [backslash, pipe] @ ?y) = [ascii ''a | b'', ascii ''c''] \<and>
      pipe \<in> set (splitRowPreservingEscapedPipes (?x @ [backslash, pipe] @ ?y) ! 0)"
    using C5_escaped_pipe_single_cell [of ?x ?y] v cb by simp
  have a: "escapedRowCells \<noteq> []" by (simp add: escapedRowCells_def)
  have b: "\<forall>c \<in> set escapedRowCells. isCellSource c" by code_simp
  have h: "hd escapedRowCells \<noteq> [] \<and> last escapedRowCells \<noteq> []" by code_simp
  have c1: "tableRow True True escapedRowCells = ascii ''| a '' @ [backslash, pipe] @ ascii '' b | c |''"
    by code_simp
  have c2: "tableRow False False escapedRowCells = ascii '' a '' @ [backslash, pipe] @ ascii '' b | c ''"
    by code_simp
  have d: "escapedRowCells ! 0 = ascii '' a '' @ [backslash, pipe] @ ascii '' b ''"
    by (simp add: escapedRowCells_def)
  have e: "map cellValue escapedRowCells = [ascii ''a | b'', ascii ''c'']" by code_simp
  have f: "0 < length escapedRowCells" by (simp add: escapedRowCells_def)
  have ex: "\<exists>u v. escapedRowCells ! 0 = u @ [backslash, pipe] @ v" using d by blast
  from C5_escaped_pipe_single_cell [of _ _ escapedRowCells True True] a b h e f ex
  have t1: "splitRowPreservingEscapedPipes (tableRow True True escapedRowCells) = [ascii ''a | b'', ascii ''c''] \<and>
        pipe \<in> set (splitRowPreservingEscapedPipes (tableRow True True escapedRowCells) ! 0)"
    by metis
  from C5_escaped_pipe_single_cell [of _ _ escapedRowCells False False] a b h e f ex
  have t2: "splitRowPreservingEscapedPipes (tableRow False False escapedRowCells) = [ascii ''a | b'', ascii ''c''] \<and>
        pipe \<in> set (splitRowPreservingEscapedPipes (tableRow False False escapedRowCells) ! 0)"
    by metis
  have n: "length escapedRowCells = 2" by (simp add: escapedRowCells_def)
  have i: "isCellSource (escapedRowCells ! 0) \<and> isCellSource (escapedRowCells ! 1)"
    using b by (simp add: escapedRowCells_def)
  from r cb ca g n i h d c1 t1 c2 t2 show ?thesis by blast
qed

subsection \<open>Section extractor\<close>

lemma findIndex_None: "findIndex P xs = None \<longleftrightarrow> (\<forall>x \<in> set xs. \<not> P x)"
  by (induction xs) auto

lemma findIndex_first:
  "i < length xs \<Longrightarrow> P (xs ! i) \<Longrightarrow> \<forall>x \<in> set (take i xs). \<not> P x \<Longrightarrow> findIndex P xs = Some i"
proof (induction xs arbitrary: i)
  case Nil
  then show ?case by simp
next
  case (Cons x xs)
  then show ?case by (cases i) auto
qed

lemma sectionBody_takeWhile: "sectionBody xs = takeWhile (\<lambda>l. \<not> startsWith (trim l) H3) xs"
  by (induction xs) auto

lemma takeWhile_eq_take:
  "n \<le> length xs \<Longrightarrow> \<forall>x \<in> set (take n xs). P x \<Longrightarrow> (n < length xs \<longrightarrow> \<not> P (xs ! n)) \<Longrightarrow>
   takeWhile P xs = take n xs"
proof (induction xs arbitrary: n)
  case Nil
  then show ?case by simp
next
  case (Cons x xs)
  then show ?case by (cases n) auto
qed

text \<open>
  Claim C3, as the code has it, for any case mapping of the engine. A line starts the
  section when its trimmed and lower-cased text starts with \<open>###\<close>, a space and the
  lower-cased label: the heading may go on after the label. When no line does, the
  extractor returns no lines. Otherwise let \<open>i\<close> be the first such line and \<open>j\<close> the
  first later line whose trimmed text starts with \<open>###\<close> and a space, or the end of the
  document: the extractor returns the lines strictly between \<open>i\<close> and \<open>j\<close>. Only a
  heading of that level ends a section.
\<close>

theorem C3_section_between_headings:
  "((\<forall>l \<in> set lines. \<not> isSectionStart rt heading l) \<longrightarrow> extractSection rt lines heading = []) \<and>
   (i < j \<and> j \<le> length lines \<and> isSectionStart rt heading (lines ! i) \<and>
    (\<forall>l \<in> set (take i lines). \<not> isSectionStart rt heading l) \<and>
    (\<forall>l \<in> set (drop (Suc i) (take j lines)). \<not> startsWith (trim l) H3) \<and>
    (j < length lines \<longrightarrow> startsWith (trim (lines ! j)) H3)
    \<longrightarrow> extractSection rt lines heading = drop (Suc i) (take j lines))"
proof (intro conjI impI)
  assume "\<forall>l \<in> set lines. \<not> isSectionStart rt heading l"
  then have "findIndex (isSectionStart rt heading) lines = None" by (simp add: findIndex_None)
  then show "extractSection rt lines heading = []" by (simp add: extractSection_def)
next
  assume a: "i < j \<and> j \<le> length lines \<and> isSectionStart rt heading (lines ! i) \<and>
    (\<forall>l \<in> set (take i lines). \<not> isSectionStart rt heading l) \<and>
    (\<forall>l \<in> set (drop (Suc i) (take j lines)). \<not> startsWith (trim l) H3) \<and>
    (j < length lines \<longrightarrow> startsWith (trim (lines ! j)) H3)"
  then have f: "findIndex (isSectionStart rt heading) lines = Some i"
    by (intro findIndex_first) auto
  let ?rest = "drop (Suc i) lines"
  let ?n = "j - Suc i"
  have t: "take ?n ?rest = drop (Suc i) (take j lines)" by (simp add: drop_take)
  have "takeWhile (\<lambda>l. \<not> startsWith (trim l) H3) ?rest = take ?n ?rest"
  proof (rule takeWhile_eq_take)
    show "?n \<le> length ?rest" using a by auto
    show "\<forall>x \<in> set (take ?n ?rest). \<not> startsWith (trim x) H3" using a t by simp
    show "?n < length ?rest \<longrightarrow> \<not> \<not> startsWith (trim (?rest ! ?n)) H3" using a by auto
  qed
  with f t show "extractSection rt lines heading = drop (Suc i) (take j lines)"
    by (simp add: extractSection_def sectionBody_takeWhile)
qed

theorem C3_section_between_headings_witness:
  "isSectionStart basicLatin (ascii ''button props'') (twoSectionLines ! 1) \<and>
   startsWith (trim (twoSectionLines ! 5)) H3 \<and>
   extractSection basicLatin twoSectionLines (ascii ''button props'') =
     [ascii ''a'', ascii ''## note'', ascii ''b''] \<and>
   extractSection basicLatin twoSectionLines (ascii ''Tabs Props'') = []"
proof -
  let ?h = "ascii ''button props''"
  have a: "(1::nat) < 5 \<and> 5 \<le> length twoSectionLines \<and>
    isSectionStart basicLatin ?h (twoSectionLines ! 1) \<and>
    (\<forall>l \<in> set (take 1 twoSectionLines). \<not> isSectionStart basicLatin ?h l) \<and>
    (\<forall>l \<in> set (drop (Suc 1) (take 5 twoSectionLines)). \<not> startsWith (trim l) H3) \<and>
    (5 < length twoSectionLines \<longrightarrow> startsWith (trim (twoSectionLines ! 5)) H3)"
    by code_simp
  have b: "\<forall>l \<in> set twoSectionLines. \<not> isSectionStart basicLatin (ascii ''Tabs Props'') l"
    by code_simp
  have c: "drop (Suc 1) (take 5 twoSectionLines) = [ascii ''a'', ascii ''## note'', ascii ''b'']"
    by code_simp
  have d: "startsWith (trim (twoSectionLines ! 5)) H3" by code_simp
  from C3_section_between_headings [of twoSectionLines basicLatin ?h 1 5] a c
  have "extractSection basicLatin twoSectionLines ?h = [ascii ''a'', ascii ''## note'', ascii ''b'']"
    by simp
  moreover from C3_section_between_headings [of twoSectionLines basicLatin "ascii ''Tabs Props''"] b
  have "extractSection basicLatin twoSectionLines (ascii ''Tabs Props'') = []" by blast
  ultimately show ?thesis using a d by blast
qed

text \<open>
  Two documents on which the extractor differs from the words of the specification. A
  heading of a coarser level does not end the section: after \<open>### A\<close> the line
  \<open>## B\<close> and the line after it are returned, where the specification's words give the
  one line before \<open>## B\<close>. And a heading that only starts with the label starts its
  section: for the label \<open>Button Props\<close> the heading \<open>### Button Props (API)\<close> is
  taken, where the heading text does not match the label.
\<close>

theorem C3_section_counterexample:
  "extractSection basicLatin coarserHeadingLines (ascii ''A'') =
     [ascii ''x'', ascii ''## B'', ascii ''y''] \<and>
   spec_extractSection basicLatin coarserHeadingLines (ascii ''A'') = [ascii ''x''] \<and>
   extractSection basicLatin longerHeadingLines (ascii ''Button Props'') = [ascii ''x''] \<and>
   spec_extractSection basicLatin longerHeadingLines (ascii ''Button Props'') = []"
  by code_simp
subsection \<open>Table locator\<close>

lemma includesStr_single: "includesStr s [c] \<longleftrightarrow> c \<in> set s"
  by (induction s) (auto simp: startsWith_def)

lemma dropWhile_all_iff: "(\<forall>x \<in> set (dropWhile P s). P x) \<longleftrightarrow> (\<forall>x \<in> set s. P x)"
  by (metis dropWhile_eq_Nil_conv hd_dropWhile list.set_sel(1) set_dropWhileD)

lemma trim_Nil_iff: "trim s = [] \<longleftrightarrow> (\<forall>c \<in> set s. isWhiteSpace c)"
  by (simp add: trim_def trimEnd_def trimStart_def dropWhile_all_iff)

lemma set_trim: "set (trim s) \<subseteq> set s"
proof -
  have "set (trim s) \<subseteq> set (dropWhile isWhiteSpace s)"
    unfolding trim_def trimEnd_def trimStart_def
    using set_dropWhileD [of _ isWhiteSpace "rev (dropWhile isWhiteSpace s)"] by auto
  then show ?thesis using set_dropWhileD [of _ isWhiteSpace s] by auto
qed

lemma pipe_not_ws: "\<not> isWhiteSpace pipe"
  by (simp add: isWhiteSpace_def pipe_def)

lemma pipe_trim_nonempty: "includesStr t [pipe] \<Longrightarrow> trim t \<noteq> []"
  using pipe_not_ws by (auto simp: includesStr_single trim_Nil_iff)

lemma collectTable_takeWhile: "collectTable xs = takeWhile (\<lambda>t. includesStr t [pipe]) xs"
proof (induction xs)
  case Nil
  then show ?case by simp
next
  case (Cons t rest)
  show ?case
  proof (cases rest)
    case Nil
    then show ?thesis by (simp add: pipe_trim_nonempty)
  next
    case (Cons n ns)
    then show ?thesis using Cons.IH pipe_trim_nonempty [of n] pipe_trim_nonempty [of t] by auto
  qed
qed

lemma tablePairAt_Cons_0:
  "tablePairAt (x # xs) 0 \<longleftrightarrow>
     isCandidateHeader (trim x) \<and> (case xs of n # _ \<Rightarrow> separatorTest n | [] \<Rightarrow> False)"
  by (cases xs) (auto simp: tablePairAt_def)

lemma tablePairAt_Cons_Suc: "tablePairAt (x # xs) (Suc i) \<longleftrightarrow> tablePairAt xs i"
  by (simp add: tablePairAt_def)

lemma findTableStart_None:
  "(\<forall>i < length xs. \<not> tablePairAt xs i) \<Longrightarrow> findTableStart n xs = None"
proof (induction xs arbitrary: n)
  case Nil
  then show ?case by simp
next
  case (Cons x xs)
  have "\<not> tablePairAt (x # xs) 0" using Cons.prems by auto
  moreover have "\<forall>i < length xs. \<not> tablePairAt xs i"
    using Cons.prems tablePairAt_Cons_Suc by fastforce
  ultimately show ?case using Cons.IH by (simp add: tablePairAt_Cons_0)
qed

lemma findTableStart_first:
  "tablePairAt xs i \<Longrightarrow> \<forall>k < i. \<not> tablePairAt xs k \<Longrightarrow> findTableStart n xs = Some (n + i)"
proof (induction xs arbitrary: n i)
  case Nil
  then show ?case by (simp add: tablePairAt_def)
next
  case (Cons x xs)
  show ?case
  proof (cases i)
    case 0
    then show ?thesis using Cons.prems by (simp add: tablePairAt_Cons_0)
  next
    case (Suc i')
    have a: "\<not> tablePairAt (x # xs) 0" using Cons.prems Suc by auto
    have b: "tablePairAt xs i'" using Cons.prems Suc by (simp add: tablePairAt_Cons_Suc)
    have c: "\<forall>k < i'. \<not> tablePairAt xs k"
      using Cons.prems Suc tablePairAt_Cons_Suc by fastforce
    from Cons.IH [OF b c, of "n + 1"] a Suc show ?thesis by (simp add: tablePairAt_Cons_0)
  qed
qed

lemma findTableStart_Some_pair: "findTableStart n xs = Some m \<Longrightarrow> \<exists>i. tablePairAt xs i"
  using findTableStart_None [of xs n] by auto

lemma candidate_has_pipe: "isCandidateHeader (trim t) \<Longrightarrow> includesStr t [pipe]"
proof -
  assume "isCandidateHeader (trim t)"
  then have "pipe \<in> set (trim t)"
    by (cases "trim t") (auto simp: isCandidateHeader_def includesStr_single startsWith_def)
  then show ?thesis using set_trim by (auto simp: includesStr_single)
qed

lemma separator_has_pipe: "separatorTest s \<Longrightarrow> includesStr s [pipe]"
  by (induction s) (auto simp: includesStr_single)

text \<open>
  Claim C4, as the code has it. The lines of the section are trimmed on the right. A table
  starts at the first index where a candidate header is immediately followed by a line in
  which a pipe, optional white space and two dashes occur; no closing pipe is asked for.
  When there is no such index the locator returns no lines, and it returns lines only when
  there is one. Otherwise it returns the header, the separator and the lines after them
  for as long as they hold a pipe.
\<close>

theorem C4_first_table:
  "((\<forall>i \<in> set [0..<length sectionLines]. \<not> tablePairAt (map normalizeLine sectionLines) i) \<longrightarrow>
      extractFirstTable sectionLines = []) \<and>
   (tablePairAt (map normalizeLine sectionLines) i \<and>
    (\<forall>k \<in> set [0..<i]. \<not> tablePairAt (map normalizeLine sectionLines) k) \<longrightarrow>
      extractFirstTable sectionLines =
        takeWhile (\<lambda>t. includesStr t [pipe]) (drop i (map normalizeLine sectionLines)) \<and>
      take 2 (extractFirstTable sectionLines) =
        [normalizeLine (sectionLines ! i), normalizeLine (sectionLines ! Suc i)]) \<and>
   (extractFirstTable sectionLines \<noteq> [] \<longrightarrow> (\<exists>i. tablePairAt (map normalizeLine sectionLines) i))"
proof (intro conjI impI)
  let ?ls = "map normalizeLine sectionLines"
  assume "\<forall>i \<in> set [0..<length sectionLines]. \<not> tablePairAt ?ls i"
  then have "findTableStart 0 ?ls = None" by (intro findTableStart_None) simp
  then show "extractFirstTable sectionLines = []" by (simp add: extractFirstTable_def)
next
  let ?ls = "map normalizeLine sectionLines"
  assume a: "tablePairAt ?ls i \<and> (\<forall>k \<in> set [0..<i]. \<not> tablePairAt ?ls k)"
  then have "findTableStart 0 ?ls = Some (0 + i)" by (intro findTableStart_first) auto
  then show e: "extractFirstTable sectionLines = takeWhile (\<lambda>t. includesStr t [pipe]) (drop i ?ls)"
    by (simp add: extractFirstTable_def collectTable_takeWhile)
  from a have len: "Suc i < length ?ls" and h: "includesStr (?ls ! i) [pipe]"
    and s: "includesStr (?ls ! Suc i) [pipe]"
    by (auto simp: tablePairAt_def candidate_has_pipe separator_has_pipe)
  from len have d: "drop i ?ls = ?ls ! i # ?ls ! Suc i # drop (Suc (Suc i)) ?ls"
    by (metis Cons_nth_drop_Suc Suc_lessD)
  from len have n: "?ls ! i = normalizeLine (sectionLines ! i)"
    "?ls ! Suc i = normalizeLine (sectionLines ! Suc i)" by simp_all
  show "take 2 (extractFirstTable sectionLines) =
      [normalizeLine (sectionLines ! i), normalizeLine (sectionLines ! Suc i)]"
    unfolding e d using h s n by simp
next
  assume "extractFirstTable sectionLines \<noteq> []"
  then obtain m where "findTableStart 0 (map normalizeLine sectionLines) = Some m"
    by (auto simp: extractFirstTable_def Let_def split: option.splits)
  then show "\<exists>i. tablePairAt (map normalizeLine sectionLines) i" by (rule findTableStart_Some_pair)
qed

theorem C4_first_table_witness:
  "tablePairAt (map normalizeLine tableSection) 1 \<and>
   \<not> tablePairAt (map normalizeLine tableSection) 0 \<and>
   extractFirstTable tableSection = [ascii ''| h1 | h2 |'', ascii ''| -- | -- |'', ascii ''| a | b |''] \<and>
   extractFirstTable [ascii ''no table here'', ascii ''a | b''] = []"
proof -
  let ?ls = "map normalizeLine tableSection"
  have a: "tablePairAt ?ls 1 \<and> (\<forall>k \<in> set [0..<1]. \<not> tablePairAt ?ls k)" by code_simp
  have a0: "\<not> tablePairAt ?ls 0" by code_simp
  have b: "takeWhile (\<lambda>t. includesStr t [pipe]) (drop 1 ?ls) =
      [ascii ''| h1 | h2 |'', ascii ''| -- | -- |'', ascii ''| a | b |'']" by code_simp
  have c: "\<forall>i \<in> set [0..<length [ascii ''no table here'', ascii ''a | b'']].
      \<not> tablePairAt (map normalizeLine [ascii ''no table here'', ascii ''a | b'']) i" by code_simp
  from C4_first_table [of tableSection 1] a b
  have "extractFirstTable tableSection = [ascii ''| h1 | h2 |'', ascii ''| -- | -- |'', ascii ''| a | b |'']"
    by simp
  moreover from C4_first_table [of "[ascii ''no table here'', ascii ''a | b'']"] c
  have "extractFirstTable [ascii ''no table here'', ascii ''a | b''] = []" by blast
  ultimately show ?thesis using a a0 by blast
qed

text \<open>
  The separator need not have its dashes between two pipes: the line \<open>|--\<close> after
  \<open>a|b\<close> makes a table, although neither line has a run of dashes between pipe
  delimiters, as the usual separator rows have.
\<close>

theorem C4_open_separator_counterexample:
  "extractFirstTable openSeparatorSection = [ascii ''a|b'', ascii ''|--''] \<and>
   \<not> spec_separatorLine (openSeparatorSection ! 0) \<and>
   \<not> spec_separatorLine (openSeparatorSection ! 1) \<and>
   length openSeparatorSection = 2 \<and>
   spec_separatorLine (ascii ''| -- | -- |'') \<and> spec_separatorLine (ascii ''|---|'')"
  by code_simp

subsection \<open>Persistence\<close>

lemma index_is_own_file: "componentFileRel (ascii ''index'') = indexFileRel"
  by code_simp

lemma someMatches_named:
  "list_ex (entryNamed rt component) es \<Longrightarrow> someMatches rt component es \<noteq> Inr False"
  by (induction rt component es rule: someMatches.induct) auto

lemma someMatches_readable:
  "list_all entryReadable es \<Longrightarrow> \<exists>b. someMatches rt component es = Inr b"
  by (induction rt component es rule: someMatches.induct) auto

lemma someMatches_readable_named:
  "list_all entryReadable es \<Longrightarrow> list_ex (entryNamed rt component) es \<Longrightarrow>
   someMatches rt component es = Inr True"
  using someMatches_named [of rt component es] someMatches_readable [of es rt component] by auto

lemma indexComponents_other:
  "rel \<noteq> indexFileRel \<Longrightarrow> indexComponents (st(rel \<mapsto> v)) = indexComponents st"
  by (simp add: indexComponents_def)

lemma indexComponents_index: "indexComponents (st(indexFileRel \<mapsto> IndexEntries es)) = es"
  by (simp add: indexComponents_def)

lemma indexComponents_doc: "indexComponents (st(indexFileRel \<mapsto> DocFile json)) = []"
  by (simp add: indexComponents_def)

lemma index_kept:
  assumes "st indexFileRel = Some (IndexEntries es)"
    and "list_ex (entryNamed rt (doc_component json)) es"
    and "componentFileRel (doc_component json) \<noteq> indexFileRel"
  shows "snd (processComponent rt json st) indexFileRel = Some (IndexEntries es) \<and>
         snd (processComponent rt json st) (componentFileRel (doc_component json)) = Some (DocFile json)"
proof -
  have c: "indexComponents (st(componentFileRel (doc_component json) \<mapsto> DocFile json)) = es"
    using assms(1,3) by (simp add: indexComponents_def)
  have "someMatches rt (doc_component json) es \<noteq> Inr False"
    using assms(2) by (rule someMatches_named)
  then consider e where "someMatches rt (doc_component json) es = Inl e"
    | "someMatches rt (doc_component json) es = Inr True"
    by (cases "someMatches rt (doc_component json) es") auto
  then show ?thesis
    using assms(1,3) by cases (simp_all add: processComponent_def Let_def c)
qed

lemma index_collision:
  "processComponent rt indexDoc st = (None, st(indexFileRel \<mapsto> IndexEntries [indexOwnEntry]))"
  by (simp add: processComponent_def Let_def indexDoc_def index_is_own_file indexComponents_doc
      indexOwnEntry_def)

lemma processComponent_readable:
  assumes "indexReadable st"
  shows "fst (processComponent rt json st) = None \<and>
         indexReadable (snd (processComponent rt json st))"
proof -
  let ?rel = "componentFileRel (doc_component json)"
  let ?st1 = "st(?rel \<mapsto> DocFile json)"
  have r: "list_all entryReadable (indexComponents ?st1)"
    using assms by (cases "?rel = indexFileRel")
      (simp_all add: indexReadable_def indexComponents_doc indexComponents_other)
  then obtain b where b: "someMatches rt (doc_component json) (indexComponents ?st1) = Inr b"
    using someMatches_readable by blast
  show ?thesis
    using r b by (cases b) (simp_all add: processComponent_def Let_def indexReadable_def
        indexComponents_index)
qed

lemma persistAll_readable: "indexReadable st \<Longrightarrow> fst (persistAll rt docs st) = None"
proof (induction docs arbitrary: st)
  case Nil
  then show ?case by simp
next
  case (Cons json rest)
  obtain r st' where p: "processComponent rt json st = (r, st')" by (cases "processComponent rt json st")
  with processComponent_readable [OF Cons.prems, of rt json] have "r = None" "indexReadable st'"
    by simp_all
  then show ?case using p Cons.IH by simp
qed

lemma processMarkdownFile_readable:
  "indexReadable st \<Longrightarrow> fst (processMarkdownFile rt md st) = Inr (processLines rt (splitLines md))"
proof -
  assume "indexReadable st"
  then have "fst (persistAll rt (processLines rt (splitLines md)) st) = None"
    by (rule persistAll_readable)
  then show ?thesis
    by (cases "persistAll rt (processLines rt (splitLines md)) st")
      (simp add: processMarkdownFile_def Let_def)
qed

text \<open>
  Claim C8. When the index file holds an entry whose name equals the name of the component
  up to case, and the file of the component is not the index file itself, persisting the
  component leaves the entries of the index as they were: nothing is appended and the file
  of the existing entry is not rewritten, although the record itself is written to the
  component file computed from its own name. This is what the claim says.

  It fails for a component whose safe name is \<open>index\<close>: its file is the index file. The
  record is written there first, over the index; the index is then read back from that
  file, which has no \<open>components\<close> array, no entry is found, and the file is written
  again as an index of one entry. Whatever entries the index held are lost, also when one
  of them had the name of the component. The document \<open>### index Props\<close> has this
  component.
\<close>

theorem C8_index_append_only:
  "(st indexFileRel = Some (IndexEntries es) \<and>
    list_ex (entryNamed rt (doc_component json)) es \<and>
    componentFileRel (doc_component json) \<noteq> indexFileRel \<longrightarrow>
      snd (processComponent rt json st) indexFileRel = Some (IndexEntries es) \<and>
      snd (processComponent rt json st) (componentFileRel (doc_component json)) = Some (DocFile json)) \<and>
   componentFileRel (doc_component indexDoc) = indexFileRel \<and>
   processComponent rt indexDoc st = (None, st(indexFileRel \<mapsto> IndexEntries [indexOwnEntry])) \<and>
   twoEntryStore indexFileRel = Some (IndexEntries twoEntries) \<and>
   list_ex (entryNamed rt (doc_component indexDoc)) twoEntries \<and>
   snd (processComponent rt indexDoc twoEntryStore) indexFileRel = Some (IndexEntries [indexOwnEntry]) \<and>
   [indexOwnEntry] \<noteq> twoEntries \<and>
   processLines basicLatin [ascii ''### index Props''] = [indexDoc] \<and>
   snd (processMarkdownFile basicLatin (ascii ''### index Props'') twoEntryStore) indexFileRel =
     Some (IndexEntries [indexOwnEntry])"
proof (intro conjI impI)
  assume "st indexFileRel = Some (IndexEntries es) \<and>
    list_ex (entryNamed rt (doc_component json)) es \<and>
    componentFileRel (doc_component json) \<noteq> indexFileRel"
  then have k: "snd (processComponent rt json st) indexFileRel = Some (IndexEntries es) \<and>
      snd (processComponent rt json st) (componentFileRel (doc_component json)) = Some (DocFile json)"
    by (intro index_kept) auto
  from k show "snd (processComponent rt json st) indexFileRel = Some (IndexEntries es)" by simp
  from k show "snd (processComponent rt json st) (componentFileRel (doc_component json)) =
      Some (DocFile json)" by simp
next
  show "componentFileRel (doc_component indexDoc) = indexFileRel"
    by (simp add: indexDoc_def index_is_own_file)
  show "processComponent rt indexDoc st = (None, st(indexFileRel \<mapsto> IndexEntries [indexOwnEntry]))"
    by (rule index_collision)
  show "twoEntryStore indexFileRel = Some (IndexEntries twoEntries)"
    by (simp add: twoEntryStore_def)
  show "list_ex (entryNamed rt (doc_component indexDoc)) twoEntries"
    by (simp add: twoEntries_def indexDoc_def)
  show "snd (processComponent rt indexDoc twoEntryStore) indexFileRel = Some (IndexEntries [indexOwnEntry])"
    by (simp add: index_collision)
  show "[indexOwnEntry] \<noteq> twoEntries" by (simp add: twoEntries_def)
  show l: "processLines basicLatin [ascii ''### index Props''] = [indexDoc]" by code_simp
  have s: "splitLines (ascii ''### index Props'') = [ascii ''### index Props'']" by code_simp
  show "snd (processMarkdownFile basicLatin (ascii ''### index Props'') twoEntryStore) indexFileRel =
      Some (IndexEntries [indexOwnEntry])"
    by (simp add: processMarkdownFile_def Let_def s l index_collision)
qed

theorem C8_index_append_only_witness:
  "lowerButtonStore indexFileRel = Some (IndexEntries lowerButtonEntries) \<and>
   list_ex (entryNamed basicLatin (doc_component buttonDoc)) lowerButtonEntries \<and>
   componentFileRel (doc_component buttonDoc) = ascii ''src/data/components/Button.json'' \<and>
   ascii ''src/data/components/Button.json'' \<noteq> indexFileRel \<and>
   lowerButtonEntries =
     [Entry (NameString (ascii ''button'')) (Some (ascii ''src/data/components/button.json''))] \<and>
   ascii ''src/data/components/Button.json'' \<noteq> ascii ''src/data/components/button.json'' \<and>
   snd (processComponent basicLatin buttonDoc lowerButtonStore) indexFileRel =
     Some (IndexEntries lowerButtonEntries) \<and>
   snd (processComponent basicLatin buttonDoc lowerButtonStore) (ascii ''src/data/components/Button.json'') =
     Some (DocFile buttonDoc)"
proof -
  have a: "lowerButtonStore indexFileRel = Some (IndexEntries lowerButtonEntries)"
    by (simp add: lowerButtonStore_def)
  have b: "list_ex (entryNamed basicLatin (doc_component buttonDoc)) lowerButtonEntries" by code_simp
  have c: "componentFileRel (doc_component buttonDoc) = ascii ''src/data/components/Button.json''"
    by code_simp
  have d: "ascii ''src/data/components/Button.json'' \<noteq> ascii ''src/data/components/button.json''"
    by code_simp
  have e: "ascii ''src/data/components/Button.json'' \<noteq> indexFileRel" by code_simp
  have f: "lowerButtonEntries =
     [Entry (NameString (ascii ''button'')) (Some (ascii ''src/data/components/button.json''))]"
    by (simp add: lowerButtonEntries_def)
  from C8_index_append_only [of lowerButtonStore lowerButtonEntries basicLatin buttonDoc] a b c e
  have "snd (processComponent basicLatin buttonDoc lowerButtonStore) indexFileRel =
     Some (IndexEntries lowerButtonEntries) \<and>
   snd (processComponent basicLatin buttonDoc lowerButtonStore) (ascii ''src/data/components/Button.json'') =
     Some (DocFile buttonDoc)" by simp
  with a b c d e f show ?thesis by blast
qed

subsection \<open>Document dispatcher\<close>

lemma ws_lowerChar: "isWhiteSpace (lowerChar c) = isWhiteSpace c"
  by (auto simp: isWhiteSpace_def lowerChar_def)

lemma lower_dropWhile:
  "map lowerChar (dropWhile isWhiteSpace s) = dropWhile isWhiteSpace (map lowerChar s)"
  by (induction s) (simp_all add: ws_lowerChar)

lemma lower_trim: "map lowerChar (trim s) = trim (map lowerChar s)"
proof -
  have "map lowerChar (rev (dropWhile isWhiteSpace (rev (dropWhile isWhiteSpace s)))) =
      rev (map lowerChar (dropWhile isWhiteSpace (rev (dropWhile isWhiteSpace s))))"
    by (simp add: rev_map)
  also have "\<dots> = rev (dropWhile isWhiteSpace (map lowerChar (rev (dropWhile isWhiteSpace s))))"
    by (simp only: lower_dropWhile)
  also have "\<dots> = rev (dropWhile isWhiteSpace (rev (map lowerChar (dropWhile isWhiteSpace s))))"
    by (simp add: rev_map)
  also have "\<dots> = rev (dropWhile isWhiteSpace (rev (dropWhile isWhiteSpace (map lowerChar s))))"
    by (simp only: lower_dropWhile)
  finally show ?thesis by (simp add: trim_def trimEnd_def trimStart_def)
qed

lemma H3_chars: "H3 = [35, 35, 35, 32]"
  by code_simp

lemma hashes_chars: "ascii ''###'' = [35, 35, 35]"
  by code_simp

lemma lowerChar_marker: "lowerChar c = 35 \<longleftrightarrow> c = 35" "lowerChar c = 32 \<longleftrightarrow> c = 32"
  by (auto simp: lowerChar_def)

lemma map_lowerChar_H3: "map lowerChar xs = [35, 35, 35, 32] \<longleftrightarrow> xs = [35, 35, 35, 32]"
  by (auto simp: map_eq_Cons_conv lowerChar_marker)

lemma lower_H3: "startsWith (map lowerChar s) H3 \<longleftrightarrow> startsWith s H3"
  by (simp add: startsWith_def H3_chars take_map map_lowerChar_H3)

lemma layout_basicLatin: "caseKeepsLayout basicLatin"
  by (simp add: caseKeepsLayout_def basicLatin_def lower_trim lower_H3)

lemma includesStr_iff: "includesStr s p \<longleftrightarrow> (\<exists>u v. s = u @ p @ v)"
proof (induction s)
  case Nil
  then show ?case by auto
next
  case (Cons c cs)
  have sw: "startsWith (c # cs) p \<longleftrightarrow> (\<exists>v. c # cs = p @ v)"
    unfolding startsWith_def by (metis append_eq_conv_conj append_take_drop_id)
  show ?case
  proof
    assume "includesStr (c # cs) p"
    then consider "startsWith (c # cs) p" | "includesStr cs p" by auto
    then show "\<exists>u v. c # cs = u @ p @ v"
    proof cases
      case 1
      then show ?thesis using sw by (metis append_Nil)
    next
      case 2
      then obtain u v where "cs = u @ p @ v" using Cons.IH by blast
      then have "c # cs = (c # u) @ p @ v" by simp
      then show ?thesis by blast
    qed
  next
    assume "\<exists>u v. c # cs = u @ p @ v"
    then obtain u v where e: "c # cs = u @ p @ v" by blast
    show "includesStr (c # cs) p"
    proof (cases u)
      case Nil
      then have "startsWith (c # cs) p" using e sw by auto
      then show ?thesis by simp
    next
      case (Cons d u')
      then have "cs = u' @ p @ v" using e by simp
      then show ?thesis using Cons.IH by auto
    qed
  qed
qed

lemma trim_decompose: "\<exists>w1 w2. s = w1 @ trim s @ w2"
proof -
  have a: "s = takeWhile isWhiteSpace s @ dropWhile isWhiteSpace s" by simp
  have "rev (dropWhile isWhiteSpace s) =
      takeWhile isWhiteSpace (rev (dropWhile isWhiteSpace s)) @
      dropWhile isWhiteSpace (rev (dropWhile isWhiteSpace s))" by simp
  then have "dropWhile isWhiteSpace s =
      trim s @ rev (takeWhile isWhiteSpace (rev (dropWhile isWhiteSpace s)))"
    unfolding trim_def trimEnd_def trimStart_def by (metis rev_append rev_rev_ident)
  with a show ?thesis by metis
qed

lemma trim_keeps_word:
  assumes "p \<noteq> []" "\<not> isWhiteSpace (hd p)" "\<not> isWhiteSpace (last p)"
  shows "\<exists>u' v'. trim (u @ p @ v) = u' @ p @ v'"
proof -
  have h: "dropWhile isWhiteSpace (p @ v) = p @ v" using assms by (cases p) auto
  have "rev p \<noteq> []" "\<not> isWhiteSpace (hd (rev p))" using assms by (simp_all add: hd_rev)
  then have r: "dropWhile isWhiteSpace (rev p @ z) = rev p @ z" for z by (cases "rev p") auto
  obtain u1 where a: "trimStart (u @ p @ v) = u1 @ p @ v"
    unfolding trimStart_def using dropWhile_keeps_suffix [OF h] by blast
  obtain w where "dropWhile isWhiteSpace (rev v @ rev p @ rev u1) = w @ rev p @ rev u1"
    using dropWhile_keeps_suffix [OF r] by blast
  then have "trimEnd (u1 @ p @ v) = u1 @ p @ rev w" by (simp add: trimEnd_def)
  with a show ?thesis by (auto simp: trim_def)
qed

lemma props_chars: "ascii ''props'' = [112, 114, 111, 112, 115]"
  by code_simp

lemma includes_props_trim: "includesStr (trim s) (ascii ''props'') \<longleftrightarrow> includesStr s (ascii ''props'')"
proof
  assume "includesStr (trim s) (ascii ''props'')"
  then obtain u v where "trim s = u @ ascii ''props'' @ v" by (auto simp: includesStr_iff)
  moreover obtain w1 w2 where "s = w1 @ trim s @ w2" using trim_decompose by blast
  ultimately have "s = (w1 @ u) @ ascii ''props'' @ (v @ w2)" by simp
  then show "includesStr s (ascii ''props'')" unfolding includesStr_iff by blast
next
  assume "includesStr s (ascii ''props'')"
  then obtain u v where e: "s = u @ ascii ''props'' @ v" by (auto simp: includesStr_iff)
  have "\<exists>u' v'. trim (u @ ascii ''props'' @ v) = u' @ ascii ''props'' @ v'"
    by (rule trim_keeps_word) (simp_all add: props_chars isWhiteSpace_def)
  then show "includesStr (trim s) (ascii ''props'')" using e by (auto simp: includesStr_iff)
qed

lemma single_predicate:
  assumes "caseKeepsLayout rt"
  shows "(startsWith (toLowerCase rt (trim l)) H3 \<and> includesStr (toLowerCase rt l) (ascii ''props'')) \<longleftrightarrow>
         isPropsHeading rt (trim l)"
proof -
  have "toLowerCase rt (trim l) = trim (toLowerCase rt l)"
    using assms by (simp add: caseKeepsLayout_def)
  then show ?thesis by (simp add: isPropsHeading_def includes_props_trim)
qed

lemma heading_marker:
  assumes "caseKeepsLayout rt" and "isPropsHeading rt h"
  shows "startsWith h H3"
  using assms by (simp add: caseKeepsLayout_def isPropsHeading_def)

lemma find_filter: "find P xs = (case filter P xs of [] \<Rightarrow> None | x # _ \<Rightarrow> Some x)"
  by (induction xs) auto

lemma trimEnd_decompose: "\<exists>w. (\<forall>x \<in> set w. isWhiteSpace x) \<and> m = trimEnd m @ w"
proof -
  have "rev m = takeWhile isWhiteSpace (rev m) @ dropWhile isWhiteSpace (rev m)" by simp
  then have "m = trimEnd m @ rev (takeWhile isWhiteSpace (rev m))"
    unfolding trimEnd_def by (metis rev_append rev_rev_ident)
  moreover have "\<forall>x \<in> set (rev (takeWhile isWhiteSpace (rev m))). isWhiteSpace x"
    using set_takeWhileD by fastforce
  ultimately show ?thesis by blast
qed

lemma trimEnd_last: "trimEnd m \<noteq> [] \<Longrightarrow> \<not> isWhiteSpace (last (trimEnd m))"
  unfolding trimEnd_def using hd_dropWhile [of isWhiteSpace "rev m"] by (simp add: last_rev)

lemma propsMatchAt_Nil [simp]: "\<not> propsMatchAt []"
  by (simp add: propsMatchAt_def)

lemma propsMatchAt_Cons [simp]:
  "propsMatchAt (c # cs) \<longleftrightarrow>
     isWhiteSpace c \<and> startsWith (regexFold (dropWhile isWhiteSpace cs)) (ascii ''props'')"
  by (simp add: propsMatchAt_def)

lemma afterProps_Cons [simp]:
  "afterProps (c # cs) = dropWhile (\<lambda>d. \<not> isLineTerminator d) (drop 5 (dropWhile isWhiteSpace cs))"
  by (simp add: afterProps_def)

lemma all_ws_stripPropsSuffix: "\<forall>x \<in> set w. isWhiteSpace x \<Longrightarrow> stripPropsSuffix w = w"
proof (induction w)
  case Nil
  then show ?case by simp
next
  case (Cons c w)
  then have d: "dropWhile isWhiteSpace w = []" by simp
  have "\<not> startsWith (regexFold (dropWhile isWhiteSpace w)) (ascii ''props'')"
    unfolding d by (simp add: regexFold_def startsWith_def props_chars)
  then show ?case using Cons by simp
qed

lemma startsWith_append_disjoint:
  assumes "set y \<inter> set p = {}"
  shows "startsWith (x @ y) p = startsWith x p"
proof (cases "length p \<le> length x")
  case True
  then show ?thesis by (simp add: startsWith_def)
next
  case False
  have a: "\<not> startsWith x p"
  proof
    assume "startsWith x p"
    then have "length (take (length p) x) = length p" unfolding startsWith_def by simp
    then have "length p \<le> length x" by simp
    with False show False by simp
  qed
  have b: "\<not> startsWith (x @ y) p"
  proof
    assume "startsWith (x @ y) p"
    then have e: "x @ take (length p - length x) y = p" using False by (simp add: startsWith_def)
    then have "take (length p - length x) y \<noteq> []" using False by auto
    then have "hd (take (length p - length x) y) \<in> set (take (length p - length x) y)"
      by (rule hd_in_set)
    then have "hd (take (length p - length x) y) \<in> set y" by (meson in_set_takeD)
    moreover have "hd (take (length p - length x) y) \<in> set p"
      using e \<open>take (length p - length x) y \<noteq> []\<close>
      by (metis Un_iff list.set_sel(1) set_append)
    ultimately show False using assms by blast
  qed
  from a b show ?thesis by simp
qed

lemma lower_ws_props_disjoint:
  assumes "\<forall>x \<in> set w. isWhiteSpace x"
  shows "set (regexFold w) \<inter> set (ascii ''props'') = {}"
proof -
  have "\<forall>x \<in> set (regexFold w). isWhiteSpace x"
    using assms by (auto simp: regexFold_def ws_lowerChar)
  moreover have "\<forall>x \<in> set (ascii ''props''). \<not> isWhiteSpace x"
    by (simp add: props_chars isWhiteSpace_def)
  ultimately show ?thesis by blast
qed

lemma dropWhile_append_ws:
  assumes "\<forall>x \<in> set w. isWhiteSpace x"
  shows "\<exists>w'. (\<forall>x \<in> set w'. isWhiteSpace x) \<and> dropWhile Q (x @ w) = dropWhile Q x @ w'"
proof (cases "\<forall>y \<in> set x. Q y")
  case True
  then have "dropWhile Q (x @ w) = dropWhile Q x @ dropWhile Q w" by (simp add: dropWhile_append)
  moreover have "\<forall>x \<in> set (dropWhile Q w). isWhiteSpace x" using assms set_dropWhileD by fastforce
  ultimately show ?thesis by blast
next
  case False
  then have "dropWhile Q (x @ w) = dropWhile Q x @ w" by (auto simp: dropWhile_append)
  with assms show ?thesis by blast
qed

lemma trim_append_ws:
  assumes "\<forall>x \<in> set w. isWhiteSpace x"
  shows "trim (x @ w) = trim x"
proof (cases "\<forall>y \<in> set x. isWhiteSpace y")
  case True
  then have "trim (x @ w) = []" "trim x = []" using assms by (auto simp: trim_Nil_iff)
  then show ?thesis by simp
next
  case False
  then have a: "dropWhile isWhiteSpace (x @ w) = dropWhile isWhiteSpace x @ w"
    by (auto simp: dropWhile_append)
  have "dropWhile isWhiteSpace (rev w @ rev (dropWhile isWhiteSpace x)) =
      dropWhile isWhiteSpace (rev (dropWhile isWhiteSpace x))"
    using assms by (simp add: dropWhile_append)
  then show ?thesis by (simp add: trim_def trimEnd_def trimStart_def a)
qed

lemma stripPropsSuffix_append_ws:
  assumes "\<forall>x \<in> set w. isWhiteSpace x"
  shows "a = [] \<or> \<not> isWhiteSpace (last a) \<Longrightarrow>
     \<exists>w'. (\<forall>x \<in> set w'. isWhiteSpace x) \<and> stripPropsSuffix (a @ w) = stripPropsSuffix a @ w'"
proof (induction a)
  case Nil
  then show ?case using assms by (auto simp: all_ws_stripPropsSuffix)
next
  case (Cons c a')
  have la: "a' = [] \<or> \<not> isWhiteSpace (last a')" using Cons.prems by (auto split: if_splits)
  from Cons.IH [OF la] obtain w1 where w1: "\<forall>x \<in> set w1. isWhiteSpace x"
    "stripPropsSuffix (a' @ w) = stripPropsSuffix a' @ w1" by blast
  show ?case
  proof (cases "isWhiteSpace c")
    case False
    then show ?thesis using w1 by simp
  next
    case True
    then have ne: "a' \<noteq> []" and nl: "\<not> isWhiteSpace (last a')"
      using Cons.prems by (auto split: if_splits)
    then have ex: "\<exists>x \<in> set a'. \<not> isWhiteSpace x" using last_in_set by blast
    let ?u = "dropWhile isWhiteSpace a'"
    have dw: "dropWhile isWhiteSpace (a' @ w) = ?u @ w" using ex by (auto simp: dropWhile_append)
    have "startsWith (regexFold ?u @ regexFold w) (ascii ''props'') =
        startsWith (regexFold ?u) (ascii ''props'')"
      by (rule startsWith_append_disjoint) (rule lower_ws_props_disjoint [OF assms])
    then have sw: "startsWith (regexFold (?u @ w)) (ascii ''props'') =
        startsWith (regexFold ?u) (ascii ''props'')" by (simp add: regexFold_def)
    show ?thesis
    proof (cases "startsWith (regexFold ?u) (ascii ''props'')")
      case False
      then show ?thesis using w1 sw dw True by simp
    next
      case m: True
      then have "take (length (ascii ''props'')) (regexFold ?u) = ascii ''props''"
        by (simp add: startsWith_def)
      then have "length (take (length (ascii ''props'')) (regexFold ?u)) = length (ascii ''props'')"
        by simp
      then have len: "5 \<le> length ?u" by (simp add: props_chars regexFold_def)
      obtain w' where w': "\<forall>x \<in> set w'. isWhiteSpace x"
        "dropWhile (\<lambda>d. \<not> isLineTerminator d) (drop 5 ?u @ w) =
         dropWhile (\<lambda>d. \<not> isLineTerminator d) (drop 5 ?u) @ w'"
        using dropWhile_append_ws [OF assms] by blast
      have "stripPropsSuffix ((c # a') @ w) =
          dropWhile (\<lambda>d. \<not> isLineTerminator d) (drop 5 ?u @ w)"
        using True m sw dw len by simp
      moreover have "stripPropsSuffix (c # a') = dropWhile (\<lambda>d. \<not> isLineTerminator d) (drop 5 ?u)"
        using True m by simp
      ultimately show ?thesis using w' by auto
    qed
  qed
qed

lemma last_dropWhile_eq: "dropWhile P xs \<noteq> [] \<Longrightarrow> last (dropWhile P xs) = last xs"
  by (metis last_appendR takeWhile_dropWhile_id)

lemma componentNameOf_trim:
  assumes "caseKeepsLayout rt" and "isPropsHeading rt (trim l)"
  shows "componentNameOf (trim l) = componentNameOf l"
proof -
  let ?m = "dropWhile isWhiteSpace l"
  from assms have sw: "startsWith (trim l) H3" by (rule heading_marker)
  then have "trim l = H3 @ drop (length H3) (trim l)"
    unfolding startsWith_def by (metis append_take_drop_id)
  then obtain rest where t: "trim l = 35 # 35 # 35 # 32 # rest" by (auto simp: H3_chars)
  have tm: "trim l = trimEnd ?m" by (simp add: trim_def trimStart_def)
  obtain w where w: "\<forall>x \<in> set w. isWhiteSpace x" "?m = trim l @ w"
    using trimEnd_decompose [of ?m] tm by auto
  have "trimEnd ?m \<noteq> []" using tm t by (metis list.distinct(1))
  then have "\<not> isWhiteSpace (last (trim l))" using trimEnd_last [of ?m] tm by simp
  then have rest: "rest \<noteq> []" "\<not> isWhiteSpace (last rest)"
    using t by (auto simp: isWhiteSpace_def split: if_splits)
  then have ex: "\<exists>x \<in> set rest. \<not> isWhiteSpace x" using last_in_set by blast
  let ?a = "dropWhile isWhiteSpace rest"
  have a_ne: "?a \<noteq> []" using ex by simp
  then have a_last: "\<not> isWhiteSpace (last ?a)" using rest last_dropWhile_eq by metis
  have s1: "stripHeadingMarker (trim l) = ?a"
    by (simp add: stripHeadingMarker_def t startsWith_def hashes_chars isWhiteSpace_def)
  have "dropWhile isWhiteSpace (rest @ w) = ?a @ w" using ex by (auto simp: dropWhile_append)
  then have s2: "stripHeadingMarker l = ?a @ w"
    by (simp add: stripHeadingMarker_def w(2) t startsWith_def hashes_chars isWhiteSpace_def)
  obtain w' where w': "\<forall>x \<in> set w'. isWhiteSpace x"
    "stripPropsSuffix (?a @ w) = stripPropsSuffix ?a @ w'"
    using stripPropsSuffix_append_ws [OF w(1), of ?a] a_last by blast
  show ?thesis
    by (simp add: componentNameOf_def s1 s2 w'(2) trim_append_ws [OF w'(1)])
qed

lemma propsHeadings_map:
  "propsHeadings rt lines = map trim (filter (\<lambda>l. isPropsHeading rt (trim l)) lines)"
  by (simp add: propsHeadings_def filter_map comp_def)

lemma singleComponentName_eq:
  assumes "caseKeepsLayout rt"
  shows "singleComponentName rt lines =
     (case propsHeadings rt lines of [] \<Rightarrow> UNKNOWN | h # _ \<Rightarrow> componentNameOf h)"
proof (cases "filter (\<lambda>l. isPropsHeading rt (trim l)) lines")
  case Nil
  then show ?thesis
    by (simp add: singleComponentName_def single_predicate [OF assms] find_filter propsHeadings_map)
next
  case (Cons l ls)
  then have "l \<in> set (filter (\<lambda>l. isPropsHeading rt (trim l)) lines)" by simp
  then have h: "isPropsHeading rt (trim l)" by simp
  then have "startsWith (trim l) H3" using assms heading_marker by blast
  then have "trim l \<noteq> []" by (auto simp: startsWith_def H3_chars)
  then have "l \<noteq> []" by (auto simp: trim_Nil_iff)
  then show ?thesis using Cons h
    by (simp add: singleComponentName_def single_predicate [OF assms] find_filter propsHeadings_map
        componentNameOf_trim [OF assms])
qed

lemma Props_chars: "ascii '' Props'' = [32, 80, 114, 111, 112, 115]"
  by code_simp

lemma stripPropsSuffix_word:
  "\<forall>c \<in> set n. \<not> isWhiteSpace c \<Longrightarrow> stripPropsSuffix (n @ ascii '' Props'') = n"
proof (induction n)
  case Nil
  show ?case
    by (simp add: Props_chars props_chars isWhiteSpace_def regexFold_def lowerChar_def
        isLineTerminator_def startsWith_def)
next
  case (Cons c n)
  then show ?case by simp
qed

lemma stripPropsSuffix_no_ws: "\<forall>c \<in> set n. \<not> isWhiteSpace c \<Longrightarrow> stripPropsSuffix n = n"
  by (induction n) simp_all

lemma trim_word: "\<forall>c \<in> set n. \<not> isWhiteSpace c \<Longrightarrow> trim n = n"
proof -
  assume a: "\<forall>c \<in> set n. \<not> isWhiteSpace c"
  then have "dropWhile isWhiteSpace n = n" by (cases n) auto
  moreover have "dropWhile isWhiteSpace (rev n) = rev n" using a by (cases "rev n") auto
  ultimately show ?thesis by (simp add: trim_def trimEnd_def trimStart_def)
qed

lemma componentNameOf_word:
  assumes "n \<noteq> []" and "\<forall>c \<in> set n. \<not> isWhiteSpace c"
  shows "componentNameOf (H3 @ n @ ascii '' Props'') = n"
proof -
  have "dropWhile isWhiteSpace (n @ ascii '' Props'') = n @ ascii '' Props''"
    using assms by (cases n) auto
  then have "stripHeadingMarker (H3 @ n @ ascii '' Props'') = n @ ascii '' Props''"
    by (simp add: stripHeadingMarker_def H3_chars hashes_chars startsWith_def isWhiteSpace_def)
  then show ?thesis
    using assms(2) by (simp add: componentNameOf_def stripPropsSuffix_word trim_word)
qed

lemma componentNameOf_bare:
  assumes "n \<noteq> []" and "\<forall>c \<in> set n. \<not> isWhiteSpace c"
  shows "componentNameOf (H3 @ n) = n"
proof -
  have "dropWhile isWhiteSpace n = n" using assms by (cases n) auto
  then have "stripHeadingMarker (H3 @ n) = n"
    by (simp add: stripHeadingMarker_def H3_chars hashes_chars startsWith_def isWhiteSpace_def)
  then show ?thesis
    using assms(2) by (simp add: componentNameOf_def stripPropsSuffix_no_ws trim_word)
qed

lemma stripHeadingMarker_H3:
  assumes "startsWith h H3"
  shows "stripHeadingMarker h = dropWhile isWhiteSpace (drop 3 h)"
proof -
  from assms have "h = H3 @ drop (length H3) h"
    unfolding startsWith_def by (metis append_take_drop_id)
  then obtain rest where "h = 35 # 35 # 35 # 32 # rest" by (auto simp: H3_chars)
  then show ?thesis
    by (simp add: stripHeadingMarker_def startsWith_def hashes_chars isWhiteSpace_def)
qed

lemma set_stripHeadingMarker: "set (stripHeadingMarker h) \<subseteq> set h"
proof -
  have "set (dropWhile isWhiteSpace (drop 3 (dropWhile isWhiteSpace h))) \<subseteq> set h"
    by (meson in_set_dropD set_dropWhileD subsetI)
  then show ?thesis by (simp add: stripHeadingMarker_def Let_def)
qed

lemma stripPropsSuffix_no_match:
  "\<forall>k < length t. \<not> propsMatchAt (drop k t) \<Longrightarrow> stripPropsSuffix t = t"
proof (induction t)
  case Nil
  then show ?case by simp
next
  case (Cons c t)
  from Cons.prems have "0 < length (c # t) \<longrightarrow> \<not> propsMatchAt (drop 0 (c # t))" by blast
  then have a: "\<not> propsMatchAt (c # t)" by simp
  have "\<forall>k < length t. \<not> propsMatchAt (drop k t)"
  proof (intro allI impI)
    fix k
    assume "k < length t"
    then have "Suc k < length (c # t)" by simp
    with Cons.prems have "\<not> propsMatchAt (drop (Suc k) (c # t))" by blast
    then show "\<not> propsMatchAt (drop k t)" by simp
  qed
  then have "stripPropsSuffix t = t" by (rule Cons.IH)
  then show ?case using a by (simp del: propsMatchAt_Cons)
qed

lemma stripPropsSuffix_first_match:
  "propsMatchAt m \<Longrightarrow> \<forall>k < length u. \<not> propsMatchAt (drop k (u @ m)) \<Longrightarrow>
   stripPropsSuffix (u @ m) = u @ afterProps m"
proof (induction u)
  case Nil
  then show ?case by (cases m) (simp_all del: propsMatchAt_Cons afterProps_Cons)
next
  case (Cons c u)
  from Cons.prems(2) have "0 < length (c # u) \<longrightarrow> \<not> propsMatchAt (drop 0 ((c # u) @ m))" by blast
  then have a: "\<not> propsMatchAt (c # u @ m)" by simp
  have "\<forall>k < length u. \<not> propsMatchAt (drop k (u @ m))"
  proof (intro allI impI)
    fix k
    assume "k < length u"
    then have "Suc k < length (c # u)" by simp
    with Cons.prems(2) have "\<not> propsMatchAt (drop (Suc k) ((c # u) @ m))" by blast
    then show "\<not> propsMatchAt (drop k (u @ m))" by simp
  qed
  with Cons.prems(1) have "stripPropsSuffix (u @ m) = u @ afterProps m" by (rule Cons.IH)
  then show ?case using a by (simp del: propsMatchAt_Cons)
qed

lemma afterProps_no_terminator: "\<forall>c \<in> set m. \<not> isLineTerminator c \<Longrightarrow> afterProps m = []"
proof -
  assume a: "\<forall>c \<in> set m. \<not> isLineTerminator c"
  have "set (drop 5 (dropWhile isWhiteSpace (tl m))) \<subseteq> set m"
    by (metis in_set_dropD list.sel(2) list.set_sel(2) set_dropWhileD subsetI)
  with a have "\<forall>c \<in> set (drop 5 (dropWhile isWhiteSpace (tl m))). \<not> isLineTerminator c" by blast
  then show ?thesis by (simp add: afterProps_def)
qed

lemma name_no_match:
  "\<forall>k < length (stripHeadingMarker h). \<not> propsMatchAt (drop k (stripHeadingMarker h)) \<Longrightarrow>
   componentNameOf h = trim (stripHeadingMarker h)"
  by (simp add: componentNameOf_def stripPropsSuffix_no_match)

lemma name_first_match:
  assumes "stripHeadingMarker h = u @ m" and "propsMatchAt m"
    and "\<forall>k < length u. \<not> propsMatchAt (drop k (u @ m))"
  shows "componentNameOf h = trim (u @ afterProps m)"
    and "\<forall>c \<in> set h. \<not> isLineTerminator c \<Longrightarrow> componentNameOf h = trim u"
proof -
  show n: "componentNameOf h = trim (u @ afterProps m)"
    using assms by (simp add: componentNameOf_def stripPropsSuffix_first_match)
  assume "\<forall>c \<in> set h. \<not> isLineTerminator c"
  moreover have "set m \<subseteq> set h" using set_stripHeadingMarker [of h] assms(1) by auto
  ultimately have "afterProps m = []" by (intro afterProps_no_terminator) blast
  then show "componentNameOf h = trim u" using n by simp
qed

lemma doc_component_componentDoc: "doc_component (componentDoc rt ls n) = n"
  by (simp add: componentDoc_def Let_def)

text \<open>
  Claim C2, as the code has it. Count the lines whose trimmed text starts, in any case,
  with \<open>###\<close> and a space and contains \<open>props\<close>. When there is at most one, the
  pipeline returns exactly one record, named after that heading, or \<open>Unknown\<close> when
  there is none. When there are more, it returns one record for each heading, in document
  order. These are the records \<open>processMarkdownFile\<close> returns for the text of the file
  when no entry of the index makes it throw.

  The name is made from the trimmed heading \<open>h\<close> in three steps. The marker goes: a
  heading that is counted starts with \<open>###\<close> and a space, and what is left is the text
  after the hashes without its leading white space. Then the text is cut at the first
  place where white space is followed by \<open>props\<close> in any case: with \<open>u\<close> the text
  before that place, the name is \<open>u\<close> trimmed (on a line with no line terminator in
  it); when there is no such place nothing is cut. So \<open>### Name Props\<close> gives
  \<open>Name\<close> for a name of one word, and a heading of one word after the marker, like
  \<open>### ButtonProps\<close>, gives that word.
\<close>

theorem C2_dispatch:
  assumes "caseKeepsLayout rt"
  shows
  "(length (propsHeadings rt lines) \<le> 1 \<longrightarrow>
      processLines rt lines =
        [componentDoc rt lines
           (case propsHeadings rt lines of [] \<Rightarrow> UNKNOWN | h # _ \<Rightarrow> componentNameOf h)] \<and>
      map doc_component (processLines rt lines) =
        [case propsHeadings rt lines of [] \<Rightarrow> UNKNOWN | h # _ \<Rightarrow> componentNameOf h]) \<and>
   (1 < length (propsHeadings rt lines) \<longrightarrow>
      processLines rt lines =
        map (\<lambda>h. componentDoc rt lines (componentNameOf h)) (propsHeadings rt lines) \<and>
      map doc_component (processLines rt lines) = map componentNameOf (propsHeadings rt lines)) \<and>
   (\<forall>h \<in> set (propsHeadings rt lines). startsWith h H3) \<and>
   (startsWith h H3 \<longrightarrow> stripHeadingMarker h = dropWhile isWhiteSpace (drop 3 h)) \<and>
   ((\<forall>k < length (stripHeadingMarker h). \<not> propsMatchAt (drop k (stripHeadingMarker h))) \<longrightarrow>
      componentNameOf h = trim (stripHeadingMarker h)) \<and>
   (stripHeadingMarker h = u @ m \<and> propsMatchAt m \<and>
    (\<forall>k < length u. \<not> propsMatchAt (drop k (u @ m))) \<longrightarrow>
      componentNameOf h = trim (u @ afterProps m) \<and>
      ((\<forall>c \<in> set h. \<not> isLineTerminator c) \<longrightarrow> componentNameOf h = trim u)) \<and>
   (n \<noteq> [] \<and> (\<forall>c \<in> set n. \<not> isWhiteSpace c) \<longrightarrow>
      componentNameOf (H3 @ n @ ascii '' Props'') = n \<and> componentNameOf (H3 @ n) = n) \<and>
   (lines = splitLines md \<and> indexReadable st \<longrightarrow>
      fst (processMarkdownFile rt md st) = Inr (processLines rt lines))"
proof -
  have len: "length (filter (\<lambda>l. isPropsHeading rt (trim l)) lines) = length (propsHeadings rt lines)"
    by (simp add: propsHeadings_map)
  have single: "processLines rt lines =
      [componentDoc rt lines
         (case propsHeadings rt lines of [] \<Rightarrow> UNKNOWN | h # _ \<Rightarrow> componentNameOf h)]"
    if "length (propsHeadings rt lines) \<le> 1"
    using that by (simp add: processLines_def Let_def len singleComponentName_eq [OF assms])
  have multi: "processLines rt lines =
      map (\<lambda>h. componentDoc rt lines (componentNameOf h)) (propsHeadings rt lines)"
    if "1 < length (propsHeadings rt lines)"
    using that by (simp add: processLines_def Let_def len parseMultiComponentDoc_def propsHeadings_def)
  have names: "map doc_component (map (\<lambda>h. componentDoc rt lines (componentNameOf h)) hs) =
      map componentNameOf hs" for hs
    by (simp add: doc_component_componentDoc comp_def)
  show ?thesis
  proof (intro conjI impI ballI)
    assume a: "length (propsHeadings rt lines) \<le> 1"
    show "processLines rt lines =
      [componentDoc rt lines
         (case propsHeadings rt lines of [] \<Rightarrow> UNKNOWN | h # _ \<Rightarrow> componentNameOf h)]"
      by (rule single [OF a])
    show "map doc_component (processLines rt lines) =
      [case propsHeadings rt lines of [] \<Rightarrow> UNKNOWN | h # _ \<Rightarrow> componentNameOf h]"
      by (simp only: single [OF a] list.map doc_component_componentDoc)
  next
    assume b: "1 < length (propsHeadings rt lines)"
    show "processLines rt lines =
        map (\<lambda>h. componentDoc rt lines (componentNameOf h)) (propsHeadings rt lines)"
      by (rule multi [OF b])
    show "map doc_component (processLines rt lines) = map componentNameOf (propsHeadings rt lines)"
      by (simp only: multi [OF b] names)
  next
    fix g
    assume "g \<in> set (propsHeadings rt lines)"
    then have "isPropsHeading rt g" by (simp add: propsHeadings_def)
    with assms show "startsWith g H3" by (rule heading_marker)
  next
    assume "startsWith h H3"
    then show "stripHeadingMarker h = dropWhile isWhiteSpace (drop 3 h)"
      by (rule stripHeadingMarker_H3)
  next
    assume "\<forall>k < length (stripHeadingMarker h). \<not> propsMatchAt (drop k (stripHeadingMarker h))"
    then show "componentNameOf h = trim (stripHeadingMarker h)" by (rule name_no_match)
  next
    assume c: "stripHeadingMarker h = u @ m \<and> propsMatchAt m \<and>
      (\<forall>k < length u. \<not> propsMatchAt (drop k (u @ m)))"
    then show "componentNameOf h = trim (u @ afterProps m)" by (intro name_first_match(1)) auto
    assume "\<forall>c \<in> set h. \<not> isLineTerminator c"
    with c show "componentNameOf h = trim u" by (intro name_first_match(2)) auto
  next
    assume d: "n \<noteq> [] \<and> (\<forall>c \<in> set n. \<not> isWhiteSpace c)"
    then show "componentNameOf (H3 @ n @ ascii '' Props'') = n" by (simp add: componentNameOf_word)
    from d show "componentNameOf (H3 @ n) = n" by (simp add: componentNameOf_bare)
  next
    assume "lines = splitLines md \<and> indexReadable st"
    then show "fst (processMarkdownFile rt md st) = Inr (processLines rt lines)"
      by (simp add: processMarkdownFile_readable)
  qed
qed

theorem C2_dispatch_witness:
  "propsHeadings basicLatin buttonLines = [ascii ''### Button Props''] \<and>
   map doc_component (processLines basicLatin buttonLines) = [ascii ''Button''] \<and>
   propsHeadings basicLatin [ascii ''plain text''] = [] \<and>
   map doc_component (processLines basicLatin [ascii ''plain text'']) = [ascii ''Unknown''] \<and>
   propsHeadings basicLatin twoComponentLines =
     [ascii ''### Button Props'', ascii ''### Input PROPS (all)''] \<and>
   map doc_component (processLines basicLatin twoComponentLines) = [ascii ''Button'', ascii ''Input''] \<and>
   stripHeadingMarker (ascii ''### Input PROPS (all)'') = ascii ''Input'' @ ascii '' PROPS (all)'' \<and>
   propsMatchAt (ascii '' PROPS (all)'') \<and>
   componentNameOf (ascii ''### Input PROPS (all)'') = ascii ''Input'' \<and>
   componentNameOf (H3 @ ascii ''Tabs'' @ ascii '' Props'') = ascii ''Tabs'' \<and>
   componentNameOf (H3 @ ascii ''ButtonProps'') = ascii ''ButtonProps'' \<and>
   indexReadable Map.empty \<and>
   fst (processMarkdownFile basicLatin buttonText Map.empty) = Inr (processLines basicLatin buttonLines)"
proof -
  note C2 = C2_dispatch [OF layout_basicLatin]
  have a: "propsHeadings basicLatin buttonLines = [ascii ''### Button Props'']" by code_simp
  have b: "propsHeadings basicLatin [ascii ''plain text''] = []" by code_simp
  have c: "propsHeadings basicLatin twoComponentLines =
      [ascii ''### Button Props'', ascii ''### Input PROPS (all)'']"
    by code_simp
  have n1: "componentNameOf (ascii ''### Button Props'') = ascii ''Button''" by code_simp
  have n3: "UNKNOWN = ascii ''Unknown''" by (simp add: UNKNOWN_def)
  have "length (propsHeadings basicLatin buttonLines) \<le> 1" by (simp add: a)
  with C2 [of buttonLines]
  have "map doc_component (processLines basicLatin buttonLines) =
      [case propsHeadings basicLatin buttonLines of [] \<Rightarrow> UNKNOWN | h # _ \<Rightarrow> componentNameOf h]"
    by blast
  then have r1: "map doc_component (processLines basicLatin buttonLines) = [ascii ''Button'']"
    by (simp add: a n1)
  have "length (propsHeadings basicLatin [ascii ''plain text'']) \<le> 1" by (simp add: b)
  with C2 [of "[ascii ''plain text'']"]
  have "map doc_component (processLines basicLatin [ascii ''plain text'']) =
      [case propsHeadings basicLatin [ascii ''plain text''] of [] \<Rightarrow> UNKNOWN
       | h # _ \<Rightarrow> componentNameOf h]"
    by blast
  then have r2: "map doc_component (processLines basicLatin [ascii ''plain text'']) = [ascii ''Unknown'']"
    by (simp add: b n3)
  let ?h = "ascii ''### Input PROPS (all)''"
  let ?u = "ascii ''Input''"
  let ?m = "ascii '' PROPS (all)''"
  have s: "stripHeadingMarker ?h = ?u @ ?m" by code_simp
  have pm: "propsMatchAt ?m" by code_simp
  have "\<forall>k \<in> set [0..<length ?u]. \<not> propsMatchAt (drop k (?u @ ?m))" by code_simp
  then have first: "\<forall>k < length ?u. \<not> propsMatchAt (drop k (?u @ ?m))" by simp
  have nt: "\<forall>c \<in> set ?h. \<not> isLineTerminator c" by code_simp
  have tu: "trim ?u = ascii ''Input''" by code_simp
  from C2 [of _ ?h ?u ?m] s pm first nt
  have "componentNameOf ?h = trim ?u" by blast
  then have n2: "componentNameOf ?h = ascii ''Input''" by (simp only: tu)
  have "1 < length (propsHeadings basicLatin twoComponentLines)" by (simp add: c)
  with C2 [of twoComponentLines]
  have "map doc_component (processLines basicLatin twoComponentLines) =
      map componentNameOf (propsHeadings basicLatin twoComponentLines)" by blast
  then have r3: "map doc_component (processLines basicLatin twoComponentLines) =
      [ascii ''Button'', ascii ''Input'']"
    by (simp add: c n1 n2)
  have "ascii ''Tabs'' \<noteq> [] \<and> (\<forall>c \<in> set (ascii ''Tabs''). \<not> isWhiteSpace c)" by code_simp
  with C2 [where n = "ascii ''Tabs''"]
  have r4: "componentNameOf (H3 @ ascii ''Tabs'' @ ascii '' Props'') = ascii ''Tabs''" by blast
  have "ascii ''ButtonProps'' \<noteq> [] \<and> (\<forall>c \<in> set (ascii ''ButtonProps''). \<not> isWhiteSpace c)"
    by code_simp
  with C2 [where n = "ascii ''ButtonProps''"]
  have r5: "componentNameOf (H3 @ ascii ''ButtonProps'') = ascii ''ButtonProps''" by blast
  have ir: "indexReadable Map.empty" by (simp add: indexReadable_def indexComponents_def)
  have bl: "buttonLines = splitLines buttonText" by code_simp
  from C2 [of buttonLines _ _ _ _ buttonText Map.empty] bl ir
  have r6: "fst (processMarkdownFile basicLatin buttonText Map.empty) =
      Inr (processLines basicLatin buttonLines)" by blast
  from a b c r1 r2 r3 s pm n2 r4 r5 ir r6 show ?thesis by blast
qed

text \<open>
  Two headings on which the name differs from the words of the specification, which has
  the marker and the suffix \<open>Props\<close> stripped. In \<open>### ButtonProps\<close> no white space
  stands before the word: nothing is cut and the component is named \<open>ButtonProps\<close>,
  not \<open>Button\<close>. In \<open>### My propsal Props\<close> the text is cut at the first white space
  that is followed by \<open>props\<close>, inside the name: the component is named \<open>My\<close>, not
  \<open>My propsal\<close>.
\<close>

theorem C2_name_counterexample:
  "propsHeadings basicLatin [ascii ''### ButtonProps''] = [ascii ''### ButtonProps''] \<and>
   map doc_component (processLines basicLatin [ascii ''### ButtonProps'']) = [ascii ''ButtonProps''] \<and>
   spec_componentName (ascii ''### ButtonProps'') = ascii ''Button'' \<and>
   propsHeadings basicLatin [ascii ''### My propsal Props''] = [ascii ''### My propsal Props''] \<and>
   map doc_component (processLines basicLatin [ascii ''### My propsal Props'']) = [ascii ''My''] \<and>
   spec_componentName (ascii ''### My propsal Props'') = ascii ''My propsal''"
  by code_simp

subsection \<open>The Button scenario\<close>

lemma exact_basicLatin: "caseExactOnPlain basicLatin"
  by (simp add: caseExactOnPlain_def basicLatin_def)

lemma agree_lower:
  "caseExactOnPlain rt \<Longrightarrow> list_all isPlainChar s \<Longrightarrow> toLowerCase rt s = toLowerCase basicLatin s"
  by (simp add: caseExactOnPlain_def basicLatin_def)

lemma agree_upper:
  "caseExactOnPlain rt \<Longrightarrow> list_all isPlainChar s \<Longrightarrow> toUpperCase rt s = toUpperCase basicLatin s"
  by (simp add: caseExactOnPlain_def basicLatin_def)

lemma findIndex_cong_set: "(\<And>x. x \<in> set xs \<Longrightarrow> P x = Q x) \<Longrightarrow> findIndex P xs = findIndex Q xs"
  by (induction xs) auto

lemma extractSection_agree:
  assumes "caseExactOnPlain rt" and "list_all isPlainChar heading"
    and "list_all (\<lambda>l. list_all isPlainChar (trim l)) lines"
  shows "extractSection rt lines heading = extractSection basicLatin lines heading"
proof -
  have "isSectionStart rt heading l = isSectionStart basicLatin heading l" if "l \<in> set lines" for l
    using that assms by (simp add: isSectionStart_def agree_lower list_all_iff)
  then have "findIndex (isSectionStart rt heading) lines =
      findIndex (isSectionStart basicLatin heading) lines"
    by (rule findIndex_cong_set)
  then show ?thesis by (simp add: extractSection_def)
qed

lemma parseMarkdownTable_agree:
  assumes "caseExactOnPlain rt"
    and "list_all (list_all isPlainChar) (splitRowPreservingEscapedPipes (hd tableLines))"
  shows "parseMarkdownTable rt tableLines = parseMarkdownTable basicLatin tableLines"
proof -
  have "map (toLowerCase rt) (splitRowPreservingEscapedPipes (hd tableLines)) =
      map (toLowerCase basicLatin) (splitRowPreservingEscapedPipes (hd tableLines))"
    using assms by (intro map_cong [OF refl]) (simp add: agree_lower list_all_iff)
  then show ?thesis by (simp add: parseMarkdownTable_def Let_def)
qed

lemma propRow_agree:
  assumes "caseExactOnPlain rt"
    and "list_all isPlainChar (trim (cellOrEmpty cols (indexOf hs L_required)))"
  shows "propRow rt hs cols = propRow basicLatin hs cols"
  using assms by (simp add: propRow_def Let_def agree_upper)

lemma parsePropsTable_agree:
  assumes "caseExactOnPlain rt"
    and "list_all (list_all isPlainChar) (splitRowPreservingEscapedPipes (hd tableLines))"
    and "list_all (\<lambda>cols. list_all isPlainChar
           (trim (cellOrEmpty cols (indexOf (headers (parseMarkdownTable basicLatin tableLines)) L_required))))
         (rows (parseMarkdownTable basicLatin tableLines))"
  shows "parsePropsTable rt tableLines = parsePropsTable basicLatin tableLines"
proof -
  have t: "parseMarkdownTable rt tableLines = parseMarkdownTable basicLatin tableLines"
    using assms(1,2) by (rule parseMarkdownTable_agree)
  have "map (propRow rt (headers (parseMarkdownTable basicLatin tableLines)))
          (rows (parseMarkdownTable basicLatin tableLines)) =
        map (propRow basicLatin (headers (parseMarkdownTable basicLatin tableLines)))
          (rows (parseMarkdownTable basicLatin tableLines))"
    using assms(1,3) by (intro map_cong [OF refl]) (simp add: propRow_agree list_all_iff)
  then show ?thesis by (simp add: parsePropsTable_def Let_def t)
qed

lemma short_table:
  assumes "length tableLines < 2"
  shows "parsePropsTable rt tableLines = []" and "parseEventsTable rt tableLines = []"
    and "parseMethodsTable rt tableLines = []"
  using assms
  by (simp_all add: parsePropsTable_def parseEventsTable_def parseMethodsTable_def Let_def
      headers_empty_iff)

lemma buttonText_lines: "splitLines buttonText = buttonLines"
  by code_simp

lemma button_doc:
  assumes "caseExactOnPlain rt"
  shows "componentDoc rt buttonLines (ascii ''Button'') = buttonDoc"
proof -
  let ?P = "ascii ''Button'' @ ascii '' Props''"
  let ?E = "ascii ''Button'' @ ascii '' Events''"
  let ?M = "ascii ''Button'' @ methodsMarker"
  have pl: "list_all (\<lambda>l. list_all isPlainChar (trim l)) buttonLines" by code_simp
  have h1: "list_all isPlainChar ?P" by code_simp
  have h2: "list_all isPlainChar ?E" by code_simp
  have h3: "list_all isPlainChar ?M" by code_simp
  have s1: "extractSection rt buttonLines ?P = extractSection basicLatin buttonLines ?P"
    by (rule extractSection_agree [OF assms h1 pl])
  have s2: "extractSection rt buttonLines ?E = extractSection basicLatin buttonLines ?E"
    by (rule extractSection_agree [OF assms h2 pl])
  have s3: "extractSection rt buttonLines ?M = extractSection basicLatin buttonLines ?M"
    by (rule extractSection_agree [OF assms h3 pl])
  let ?tp = "extractFirstTable (extractSection basicLatin buttonLines ?P)"
  let ?te = "extractFirstTable (extractSection basicLatin buttonLines ?E)"
  let ?tm = "extractFirstTable (extractSection basicLatin buttonLines ?M)"
  have e: "length ?te < 2" by code_simp
  have m: "?tm = []" by code_simp
  have t1: "list_all (list_all isPlainChar) (splitRowPreservingEscapedPipes (hd ?tp))" by code_simp
  have t2: "list_all (\<lambda>cols. list_all isPlainChar
        (trim (cellOrEmpty cols (indexOf (headers (parseMarkdownTable basicLatin ?tp)) L_required))))
      (rows (parseMarkdownTable basicLatin ?tp))" by code_simp
  have p: "parsePropsTable rt ?tp = parsePropsTable basicLatin ?tp"
    by (rule parsePropsTable_agree [OF assms t1 t2])
  have ev: "parseEventsTable rt ?te = parseEventsTable basicLatin ?te"
    using e by (simp add: short_table)
  have "componentDoc rt buttonLines (ascii ''Button'') =
      componentDoc basicLatin buttonLines (ascii ''Button'')"
    by (simp add: componentDoc_def Let_def s1 s2 s3 p ev m)
  also have "\<dots> = buttonDoc" by code_simp
  finally show ?thesis .
qed

lemma button_lines:
  assumes "caseExactOnPlain rt"
  shows "processLines rt buttonLines = [buttonDoc]"
proof -
  have pl: "list_all (\<lambda>l. list_all isPlainChar (trim l)) buttonLines"
    "list_all (list_all isPlainChar) buttonLines" by code_simp+
  have f: "filter (\<lambda>l. isPropsHeading rt (trim l)) buttonLines =
      filter (\<lambda>l. isPropsHeading basicLatin (trim l)) buttonLines"
    using pl assms by (intro filter_cong [OF refl]) (simp add: isPropsHeading_def agree_lower list_all_iff)
  have n: "length (filter (\<lambda>l. isPropsHeading basicLatin (trim l)) buttonLines) = 1" by code_simp
  have "find (\<lambda>l. startsWith (toLowerCase rt (trim l)) H3 \<and>
                    includesStr (toLowerCase rt l) (ascii ''props'')) buttonLines =
        find (\<lambda>l. startsWith (toLowerCase basicLatin (trim l)) H3 \<and>
                    includesStr (toLowerCase basicLatin l) (ascii ''props'')) buttonLines"
    using pl assms by (intro find_cong [OF refl]) (simp add: agree_lower list_all_iff)
  then have s: "singleComponentName rt buttonLines = singleComponentName basicLatin buttonLines"
    by (simp only: singleComponentName_def Let_def)
  have sb: "singleComponentName basicLatin buttonLines = ascii ''Button''" by code_simp
  show ?thesis
    by (simp add: processLines_def Let_def f n s sb button_doc [OF assms])
qed

lemma button_file: "componentFileRel (ascii ''Button'') \<noteq> indexFileRel"
  by code_simp

text \<open>
  Claim C1. The document whose lines are the heading \<open>### Button Props\<close>, the header row
  of the five props labels, a separator row and the data row of \<open>theme\<close> yields exactly
  one record: component \<open>Button\<close>, the one property \<open>theme\<close> of type \<open>string\<close> with
  default \<open>default\<close>, its description and \<open>required = false\<close>, no events and no
  \<open>methods\<close> field. This holds for the lines and for the text of the file, for every
  engine whose case mappings are the usual ones on Basic Latin and leave the ideographs
  alone. \<open>processMarkdownFile\<close> returns that record whatever the store holds, unless the
  index holds an entry that makes the scan of \<open>processComponent\<close> throw before an entry
  named \<open>Button\<close> is met; then it throws what the scan throws.
\<close>

theorem C1_button_scenario:
  assumes "caseExactOnPlain rt"
  shows "processLines rt buttonLines = [buttonDoc] \<and>
         splitLines buttonText = buttonLines \<and>
         fst (processMarkdownFile rt buttonText st) =
           (case someMatches rt (ascii ''Button'') (indexComponents st) of
              Inl e \<Rightarrow> Inl e
            | Inr found \<Rightarrow> Inr [buttonDoc]) \<and>
         (indexReadable st \<longrightarrow> fst (processMarkdownFile rt buttonText st) = Inr [buttonDoc])"
proof (intro conjI impI)
  show l: "processLines rt buttonLines = [buttonDoc]" by (rule button_lines [OF assms])
  show "splitLines buttonText = buttonLines" by (rule buttonText_lines)
  have c: "doc_component buttonDoc = ascii ''Button''" by (simp add: buttonDoc_def)
  have i: "indexComponents (st(componentFileRel (ascii ''Button'') \<mapsto> DocFile buttonDoc)) =
      indexComponents st"
    using button_file by (rule indexComponents_other)
  show "fst (processMarkdownFile rt buttonText st) =
      (case someMatches rt (ascii ''Button'') (indexComponents st) of
         Inl e \<Rightarrow> Inl e
       | Inr found \<Rightarrow> Inr [buttonDoc])"
    by (simp add: processMarkdownFile_def Let_def buttonText_lines l processComponent_def c i
        split: sum.splits)
  assume "indexReadable st"
  then show "fst (processMarkdownFile rt buttonText st) = Inr [buttonDoc]"
    by (simp add: processMarkdownFile_readable buttonText_lines l)
qed

theorem C1_button_scenario_witness:
  "processLines basicLatin buttonLines = [buttonDoc] \<and>
   splitLines buttonText = buttonLines \<and>
   indexReadable Map.empty \<and>
   fst (processMarkdownFile basicLatin buttonText Map.empty) = Inr [buttonDoc] \<and>
   indexReadable lowerButtonStore \<and>
   fst (processMarkdownFile basicLatin buttonText lowerButtonStore) = Inr [buttonDoc]"
proof -
  have a: "indexReadable Map.empty" by (simp add: indexReadable_def indexComponents_def)
  have b: "indexReadable lowerButtonStore"
    by (simp add: indexReadable_def indexComponents_def lowerButtonStore_def lowerButtonEntries_def)
  from C1_button_scenario [OF exact_basicLatin, of Map.empty]
    C1_button_scenario [OF exact_basicLatin, of lowerButtonStore] a b
  show ?thesis by blast
qed
subsection \<open>Query tools\<close>

lemma hasError_object [simp]:
  "hasError (textResult (object [(ascii ''error'', Some (JStr m))]))"
  by (simp add: hasError_def textResult_def object_def)

lemma hasError_list_object [simp]:
  "hasError (textResult (object [(ascii ''components'', Some v), (ascii ''error'', Some (JStr m))]))"
  by (simp add: hasError_def textResult_def object_def ascii_def)

lemma list_total: "\<exists>r. getComponentList env = Inr r"
  by (simp add: getComponentList_def split: sum.splits)

lemma tool_total: "\<exists>r. componentTool field failure env args = Inr r"
  by (simp add: componentTool_def split: sum.splits)

lemma list_raise: "isl (getComponentList_try env) \<Longrightarrow> returnsError (getComponentList env)"
  by (auto simp: getComponentList_def returnsError_def isl_def)

lemma list_missing: "indexMissing env \<Longrightarrow> returnsError (getComponentList env)"
  by (simp add: indexMissing_def getComponentList_def getComponentList_try_def returnsError_def)

lemma list_broken: "indexBroken env \<Longrightarrow> isl (getComponentList_try env)"
  by (auto simp: indexBroken_def getComponentList_try_def bindE_def isl_def split: option.splits)

lemma tool_raise:
  "isl (componentTool_try field env args) \<Longrightarrow> returnsError (componentTool field failure env args)"
  by (auto simp: componentTool_def returnsError_def isl_def)

lemma tool_name_missing:
  "componentNameMissing args \<Longrightarrow> returnsError (componentTool field failure env args)"
  by (simp add: componentNameMissing_def componentTool_def componentTool_try_def returnsError_def)

lemma load_fails_tool:
  assumes "componentNameArg args = Some cn" and "isl (loadComponentData env cn)"
  shows "returnsError (componentTool field failure env args)"
proof (cases "truthy (componentNameArg args)")
  case False
  then show ?thesis by (simp add: tool_name_missing componentNameMissing_def)
next
  case True
  then have "isl (componentTool_try field env args)"
    using assms by (auto simp: componentTool_try_def bindE_def isl_def)
  then show ?thesis by (rule tool_raise)
qed

lemma load_index_missing: "indexMissing env \<Longrightarrow> isl (loadComponentData env cn)"
  by (simp add: indexMissing_def loadComponentData_def)

lemma load_index_broken: "indexBroken env \<Longrightarrow> isl (loadComponentData env cn)"
  by (auto simp: indexBroken_def loadComponentData_def bindE_def isl_def split: option.splits)

lemma load_not_found: "componentNotFound env cn \<Longrightarrow> isl (loadComponentData env cn)"
  by (auto simp: componentNotFound_def indexEntry_def loadComponentData_def bindE_def
      split: option.splits sum.splits)

lemma load_file_missing: "componentFileMissing env cn \<Longrightarrow> isl (loadComponentData env cn)"
  by (auto simp: componentFileMissing_def entryFileCandidates_def indexEntry_def
      loadComponentData_def bindE_def Let_def split: option.splits sum.splits json.splits)

lemma load_file_broken: "componentFileBroken env cn \<Longrightarrow> isl (loadComponentData env cn)"
  by (auto simp: componentFileBroken_def entryFileCandidates_def indexEntry_def
      loadComponentData_def bindE_def Let_def isl_def split: option.splits sum.splits json.splits)


text \<open>
  Claim C10. The handlers of \<open>getComponentList\<close>, \<open>getComponentProps\<close> and
  \<open>getComponentEvents\<close> always return a result and never an exception. When the index
  file is missing or cannot be read or parsed, when the component name is missing from the
  arguments, when the component is not in the index, when its file is missing or cannot be
  read or parsed, and whenever anything at all is thrown inside the handler, the result
  is a text whose payload has an \<open>error\<close> field.
\<close>

theorem C10_tools_return_errors:
  "(\<exists>r. getComponentList env = Inr r) \<and>
   (\<exists>r. getComponentProps env args = Inr r) \<and>
   (\<exists>r. getComponentEvents env args = Inr r) \<and>
   (indexMissing env \<or> indexBroken env \<or> isl (getComponentList_try env) \<longrightarrow>
      returnsError (getComponentList env)) \<and>
   (componentNameMissing args \<or> isl (componentTool_try (ascii ''props'') env args) \<longrightarrow>
      returnsError (getComponentProps env args)) \<and>
   (componentNameMissing args \<or> isl (componentTool_try (ascii ''events'') env args) \<longrightarrow>
      returnsError (getComponentEvents env args)) \<and>
   (componentNameArg args = Some cn \<and>
    (indexMissing env \<or> indexBroken env \<or> componentNotFound env cn \<or>
     componentFileMissing env cn \<or> componentFileBroken env cn) \<longrightarrow>
      returnsError (getComponentProps env args) \<and> returnsError (getComponentEvents env args))"
proof (intro conjI impI)
  show "\<exists>r. getComponentList env = Inr r" by (rule list_total)
  show "\<exists>r. getComponentProps env args = Inr r" unfolding getComponentProps_def by (rule tool_total)
  show "\<exists>r. getComponentEvents env args = Inr r" unfolding getComponentEvents_def by (rule tool_total)
next
  assume "indexMissing env \<or> indexBroken env \<or> isl (getComponentList_try env)"
  then show "returnsError (getComponentList env)"
    using list_missing list_broken list_raise by blast
next
  assume "componentNameMissing args \<or> isl (componentTool_try (ascii ''props'') env args)"
  then show "returnsError (getComponentProps env args)"
    unfolding getComponentProps_def using tool_name_missing tool_raise by blast
next
  assume "componentNameMissing args \<or> isl (componentTool_try (ascii ''events'') env args)"
  then show "returnsError (getComponentEvents env args)"
    unfolding getComponentEvents_def using tool_name_missing tool_raise by blast
next
  assume a: "componentNameArg args = Some cn \<and>
    (indexMissing env \<or> indexBroken env \<or> componentNotFound env cn \<or>
     componentFileMissing env cn \<or> componentFileBroken env cn)"
  then have l: "isl (loadComponentData env cn)"
    using load_index_missing load_index_broken load_not_found load_file_missing load_file_broken
    by blast
  from a l show "returnsError (getComponentProps env args)"
    unfolding getComponentProps_def by (intro load_fails_tool [of args cn]) auto
  from a l show "returnsError (getComponentEvents env args)"
    unfolding getComponentEvents_def by (intro load_fails_tool [of args cn]) auto
qed

theorem C10_tools_return_errors_witness:
  "indexMissing envNoFiles \<and> returnsError (getComponentList envNoFiles) \<and>
   returnsError (getComponentProps envNoFiles askButton) \<and>
   indexBroken envBadIndex \<and> returnsError (getComponentList envBadIndex) \<and>
   returnsError (getComponentEvents envBadIndex askButton) \<and>
   componentNotFound envGood (JStr (ascii ''Tabs'')) \<and>
   returnsError (getComponentProps envGood askTabs) \<and>
   componentFileMissing envNoButtonFile (JStr (ascii ''button'')) \<and>
   returnsError (getComponentProps envNoButtonFile askButton) \<and>
   componentFileBroken envBadButtonFile (JStr (ascii ''button'')) \<and>
   returnsError (getComponentEvents envBadButtonFile askButton) \<and>
   componentNameMissing None \<and> returnsError (getComponentProps envGood None) \<and>
   \<not> returnsError (getComponentProps envGood askButton)"
proof -
  have n: "componentNameArg askButton = Some (JStr (ascii ''button''))"
    "componentNameArg askTabs = Some (JStr (ascii ''Tabs''))" by code_simp+
  have h1: "indexMissing envNoFiles" by code_simp
  have h2: "indexBroken envBadIndex" by code_simp
  have h3: "componentNotFound envGood (JStr (ascii ''Tabs''))" by code_simp
  have h4: "componentFileMissing envNoButtonFile (JStr (ascii ''button''))" by code_simp
  have h5: "componentFileBroken envBadButtonFile (JStr (ascii ''button''))" by code_simp
  have h6: "componentNameMissing None" by code_simp
  have ok: "\<not> returnsError (getComponentProps envGood askButton)" by code_simp
  from C10_tools_return_errors [of envNoFiles askButton "JStr (ascii ''button'')"] h1 n
  have r1: "returnsError (getComponentList envNoFiles)"
    "returnsError (getComponentProps envNoFiles askButton)" by blast+
  from C10_tools_return_errors [of envBadIndex askButton "JStr (ascii ''button'')"] h2 n
  have r2: "returnsError (getComponentList envBadIndex)"
    "returnsError (getComponentEvents envBadIndex askButton)" by blast+
  from C10_tools_return_errors [of envGood askTabs "JStr (ascii ''Tabs'')"] h3 n
  have r3: "returnsError (getComponentProps envGood askTabs)" by blast
  from C10_tools_return_errors [of envNoButtonFile askButton "JStr (ascii ''button'')"] h4 n
  have r4: "returnsError (getComponentProps envNoButtonFile askButton)" by blast
  from C10_tools_return_errors [of envBadButtonFile askButton "JStr (ascii ''button'')"] h5 n
  have r5: "returnsError (getComponentEvents envBadButtonFile askButton)" by blast
  from C10_tools_return_errors [of envGood None] h6
  have r6: "returnsError (getComponentProps envGood None)" by blast
  from h1 h2 h3 h4 h5 h6 r1 r2 r3 r4 r5 r6 ok show ?thesis by blast
qed

end
